theory Spec2Isabelle
  imports Main "HOL-Library.Word"
begin

unbundle bit_operations_syntax

section \<open>Machine integers\<close>

text \<open>
  The fixed-width types of \<^verbatim>\<open>stdint.h\<close>. A \<^verbatim>\<open>size_t\<close> is a \<^typ>\<open>nat\<close>: the
  library only adds object sizes and byte counts to it, and every place where a
  \<^verbatim>\<open>size_t\<close> is narrowed to 8, 16 or 32 bits is written out below.
\<close>

type_synonym u8 = "8 word"
type_synonym u16 = "16 word"
type_synonym u32 = "32 word"

section \<open>Checksum: \<^verbatim>\<open>picozip__crc32\<close>\<close>

definition PICOZIP__CRC_START :: u32 where
  "PICOZIP__CRC_START = 0"

definition s_crc_table :: "u32 list" where
  "s_crc_table =
    [
     0x00000000, 0x77073096, 0xEE0E612C, 0x990951BA, 0x076DC419, 0x706AF48F,
     0xE963A535, 0x9E6495A3, 0x0EDB8832, 0x79DCB8A4, 0xE0D5E91E, 0x97D2D988,
     0x09B64C2B, 0x7EB17CBD, 0xE7B82D07, 0x90BF1D91, 0x1DB71064, 0x6AB020F2,
     0xF3B97148, 0x84BE41DE, 0x1ADAD47D, 0x6DDDE4EB, 0xF4D4B551, 0x83D385C7,
     0x136C9856, 0x646BA8C0, 0xFD62F97A, 0x8A65C9EC, 0x14015C4F, 0x63066CD9,
     0xFA0F3D63, 0x8D080DF5, 0x3B6E20C8, 0x4C69105E, 0xD56041E4, 0xA2677172,
     0x3C03E4D1, 0x4B04D447, 0xD20D85FD, 0xA50AB56B, 0x35B5A8FA, 0x42B2986C,
     0xDBBBC9D6, 0xACBCF940, 0x32D86CE3, 0x45DF5C75, 0xDCD60DCF, 0xABD13D59,
     0x26D930AC, 0x51DE003A, 0xC8D75180, 0xBFD06116, 0x21B4F4B5, 0x56B3C423,
     0xCFBA9599, 0xB8BDA50F, 0x2802B89E, 0x5F058808, 0xC60CD9B2, 0xB10BE924,
     0x2F6F7C87, 0x58684C11, 0xC1611DAB, 0xB6662D3D, 0x76DC4190, 0x01DB7106,
     0x98D220BC, 0xEFD5102A, 0x71B18589, 0x06B6B51F, 0x9FBFE4A5, 0xE8B8D433,
     0x7807C9A2, 0x0F00F934, 0x9609A88E, 0xE10E9818, 0x7F6A0DBB, 0x086D3D2D,
     0x91646C97, 0xE6635C01, 0x6B6B51F4, 0x1C6C6162, 0x856530D8, 0xF262004E,
     0x6C0695ED, 0x1B01A57B, 0x8208F4C1, 0xF50FC457, 0x65B0D9C6, 0x12B7E950,
     0x8BBEB8EA, 0xFCB9887C, 0x62DD1DDF, 0x15DA2D49, 0x8CD37CF3, 0xFBD44C65,
     0x4DB26158, 0x3AB551CE, 0xA3BC0074, 0xD4BB30E2, 0x4ADFA541, 0x3DD895D7,
     0xA4D1C46D, 0xD3D6F4FB, 0x4369E96A, 0x346ED9FC, 0xAD678846, 0xDA60B8D0,
     0x44042D73, 0x33031DE5, 0xAA0A4C5F, 0xDD0D7CC9, 0x5005713C, 0x270241AA,
     0xBE0B1010, 0xC90C2086, 0x5768B525, 0x206F85B3, 0xB966D409, 0xCE61E49F,
     0x5EDEF90E, 0x29D9C998, 0xB0D09822, 0xC7D7A8B4, 0x59B33D17, 0x2EB40D81,
     0xB7BD5C3B, 0xC0BA6CAD, 0xEDB88320, 0x9ABFB3B6, 0x03B6E20C, 0x74B1D29A,
     0xEAD54739, 0x9DD277AF, 0x04DB2615, 0x73DC1683, 0xE3630B12, 0x94643B84,
     0x0D6D6A3E, 0x7A6A5AA8, 0xE40ECF0B, 0x9309FF9D, 0x0A00AE27, 0x7D079EB1,
     0xF00F9344, 0x8708A3D2, 0x1E01F268, 0x6906C2FE, 0xF762575D, 0x806567CB,
     0x196C3671, 0x6E6B06E7, 0xFED41B76, 0x89D32BE0, 0x10DA7A5A, 0x67DD4ACC,
     0xF9B9DF6F, 0x8EBEEFF9, 0x17B7BE43, 0x60B08ED5, 0xD6D6A3E8, 0xA1D1937E,
     0x38D8C2C4, 0x4FDFF252, 0xD1BB67F1, 0xA6BC5767, 0x3FB506DD, 0x48B2364B,
     0xD80D2BDA, 0xAF0A1B4C, 0x36034AF6, 0x41047A60, 0xDF60EFC3, 0xA867DF55,
     0x316E8EEF, 0x4669BE79, 0xCB61B38C, 0xBC66831A, 0x256FD2A0, 0x5268E236,
     0xCC0C7795, 0xBB0B4703, 0x220216B9, 0x5505262F, 0xC5BA3BBE, 0xB2BD0B28,
     0x2BB45A92, 0x5CB36A04, 0xC2D7FFA7, 0xB5D0CF31, 0x2CD99E8B, 0x5BDEAE1D,
     0x9B64C2B0, 0xEC63F226, 0x756AA39C, 0x026D930A, 0x9C0906A9, 0xEB0E363F,
     0x72076785, 0x05005713, 0x95BF4A82, 0xE2B87A14, 0x7BB12BAE, 0x0CB61B38,
     0x92D28E9B, 0xE5D5BE0D, 0x7CDCEFB7, 0x0BDBDF21, 0x86D3D2D4, 0xF1D4E242,
     0x68DDB3F8, 0x1FDA836E, 0x81BE16CD, 0xF6B9265B, 0x6FB077E1, 0x18B74777,
     0x88085AE6, 0xFF0F6A70, 0x66063BCA, 0x11010B5C, 0x8F659EFF, 0xF862AE69,
     0x616BFFD3, 0x166CCF45, 0xA00AE278, 0xD70DD2EE, 0x4E048354, 0x3903B3C2,
     0xA7672661, 0xD06016F7, 0x4969474D, 0x3E6E77DB, 0xAED16A4A, 0xD9D65ADC,
     0x40DF0B66, 0x37D83BF0, 0xA9BCAE53, 0xDEBB9EC5, 0x47B2CF7F, 0x30B5FFE9,
     0xBDBDF21C, 0xCABAC28A, 0x53B39330, 0x24B4A3A6, 0xBAD03605, 0xCDD70693,
     0x54DE5729, 0x23D967BF, 0xB3667A2E, 0xC4614AB8, 0x5D681B02, 0x2A6F2B94,
     0xB40BBE37, 0xC30C8EA1, 0x5A05DF1B, 0x2D02EF8D
    ]"

text \<open>
  One line of either loop body:
  \<^verbatim>\<open>crc32 = (crc32 >> 8) ^ s_crc_table[(crc32 ^ ptr[0]) & 0xFF]\<close>.
\<close>

definition crc32_step :: "u32 \<Rightarrow> u8 \<Rightarrow> u32" where
  "crc32_step crc32 b =
     drop_bit 8 crc32 XOR s_crc_table ! unat ((crc32 XOR ucast b) AND 0xFF)"

text \<open>The first loop, \<^verbatim>\<open>while (buf_len >= 4)\<close>: four bytes a round; it returns what is left.\<close>

fun crc32_loop4 :: "u8 list \<Rightarrow> u32 \<Rightarrow> u8 list \<times> u32" where
  "crc32_loop4 (b0 # b1 # b2 # b3 # ptr) crc32 =
     crc32_loop4 ptr (crc32_step (crc32_step (crc32_step (crc32_step crc32 b0) b1) b2) b3)"
| "crc32_loop4 ptr crc32 = (ptr, crc32)"

text \<open>The second loop, \<^verbatim>\<open>while (buf_len)\<close>: one byte a round.\<close>

fun crc32_loop1 :: "u8 list \<Rightarrow> u32 \<Rightarrow> u32" where
  "crc32_loop1 [] crc32 = crc32"
| "crc32_loop1 (b # ptr) crc32 = crc32_loop1 ptr (crc32_step crc32 b)"

text \<open>
  \<^verbatim>\<open>uint32_t picozip__crc32(const uint8_t *ptr, size_t buf_len, uint32_t crc)\<close>; the
  buffer and its length are one list.
\<close>

definition picozip__crc32 :: "u8 list \<Rightarrow> u32 \<Rightarrow> u32" where
  "picozip__crc32 ptr crc =
     (let crc32 = crc XOR 0xFFFFFFFF;
          (rest, crc32) = crc32_loop4 ptr crc32;
          crc32 = crc32_loop1 rest crc32
      in NOT crc32)"

subsection \<open>The reference: reflected CRC-32, polynomial 0xEDB88320, bit by bit\<close>

text \<open>
  The checksum of ZIP and PNG as its definition gives it, with no table: the register
  starts at all ones, each byte is XORed into its low end and the register is shifted
  right eight times, the polynomial XORed in whenever a one is shifted out; the result
  is complemented.
\<close>

definition crc_shift :: "u32 \<Rightarrow> u32" where
  "crc_shift c = (if bit c 0 then drop_bit 1 c XOR 0xEDB88320 else drop_bit 1 c)"

definition reference_crc32_byte :: "u32 \<Rightarrow> u8 \<Rightarrow> u32" where
  "reference_crc32_byte c b = (crc_shift ^^ 8) (c XOR ucast b)"

definition reference_crc32 :: "u8 list \<Rightarrow> u32" where
  "reference_crc32 bs = NOT (fold (\<lambda>b c. reference_crc32_byte c b) bs 0xFFFFFFFF)"


text \<open>The 256 values a byte takes, as 32-bit words: the indices of the table.\<close>

definition byte_values :: "u32 list" where
  "byte_values =
    [
     0x00, 0x01, 0x02, 0x03, 0x04, 0x05, 0x06, 0x07,
     0x08, 0x09, 0x0A, 0x0B, 0x0C, 0x0D, 0x0E, 0x0F,
     0x10, 0x11, 0x12, 0x13, 0x14, 0x15, 0x16, 0x17,
     0x18, 0x19, 0x1A, 0x1B, 0x1C, 0x1D, 0x1E, 0x1F,
     0x20, 0x21, 0x22, 0x23, 0x24, 0x25, 0x26, 0x27,
     0x28, 0x29, 0x2A, 0x2B, 0x2C, 0x2D, 0x2E, 0x2F,
     0x30, 0x31, 0x32, 0x33, 0x34, 0x35, 0x36, 0x37,
     0x38, 0x39, 0x3A, 0x3B, 0x3C, 0x3D, 0x3E, 0x3F,
     0x40, 0x41, 0x42, 0x43, 0x44, 0x45, 0x46, 0x47,
     0x48, 0x49, 0x4A, 0x4B, 0x4C, 0x4D, 0x4E, 0x4F,
     0x50, 0x51, 0x52, 0x53, 0x54, 0x55, 0x56, 0x57,
     0x58, 0x59, 0x5A, 0x5B, 0x5C, 0x5D, 0x5E, 0x5F,
     0x60, 0x61, 0x62, 0x63, 0x64, 0x65, 0x66, 0x67,
     0x68, 0x69, 0x6A, 0x6B, 0x6C, 0x6D, 0x6E, 0x6F,
     0x70, 0x71, 0x72, 0x73, 0x74, 0x75, 0x76, 0x77,
     0x78, 0x79, 0x7A, 0x7B, 0x7C, 0x7D, 0x7E, 0x7F,
     0x80, 0x81, 0x82, 0x83, 0x84, 0x85, 0x86, 0x87,
     0x88, 0x89, 0x8A, 0x8B, 0x8C, 0x8D, 0x8E, 0x8F,
     0x90, 0x91, 0x92, 0x93, 0x94, 0x95, 0x96, 0x97,
     0x98, 0x99, 0x9A, 0x9B, 0x9C, 0x9D, 0x9E, 0x9F,
     0xA0, 0xA1, 0xA2, 0xA3, 0xA4, 0xA5, 0xA6, 0xA7,
     0xA8, 0xA9, 0xAA, 0xAB, 0xAC, 0xAD, 0xAE, 0xAF,
     0xB0, 0xB1, 0xB2, 0xB3, 0xB4, 0xB5, 0xB6, 0xB7,
     0xB8, 0xB9, 0xBA, 0xBB, 0xBC, 0xBD, 0xBE, 0xBF,
     0xC0, 0xC1, 0xC2, 0xC3, 0xC4, 0xC5, 0xC6, 0xC7,
     0xC8, 0xC9, 0xCA, 0xCB, 0xCC, 0xCD, 0xCE, 0xCF,
     0xD0, 0xD1, 0xD2, 0xD3, 0xD4, 0xD5, 0xD6, 0xD7,
     0xD8, 0xD9, 0xDA, 0xDB, 0xDC, 0xDD, 0xDE, 0xDF,
     0xE0, 0xE1, 0xE2, 0xE3, 0xE4, 0xE5, 0xE6, 0xE7,
     0xE8, 0xE9, 0xEA, 0xEB, 0xEC, 0xED, 0xEE, 0xEF,
     0xF0, 0xF1, 0xF2, 0xF3, 0xF4, 0xF5, 0xF6, 0xF7,
     0xF8, 0xF9, 0xFA, 0xFB, 0xFC, 0xFD, 0xFE, 0xFF
    ]"


section \<open>Constants of \<^verbatim>\<open>picozip.h\<close>\<close>

definition PICOZIP_READ_BUF :: nat where "PICOZIP_READ_BUF = 2048"

definition PICOZIP__LOCAL_MAGIC :: nat where "PICOZIP__LOCAL_MAGIC = 0x04034b50"
definition PICOZIP__CENTRAL_MAGIC :: nat where "PICOZIP__CENTRAL_MAGIC = 0x02014b50"
definition PICOZIP__EOCD_MAGIC :: nat where "PICOZIP__EOCD_MAGIC = 0x06054b50"
definition PICOZIP__MIN_VERSION :: nat where "PICOZIP__MIN_VERSION = 0x14"
definition PICOZIP__TIMESTAMP_MAGIC :: nat where "PICOZIP__TIMESTAMP_MAGIC = 0x5455"
definition PICOZIP__DATADESC_MAGIC :: nat where "PICOZIP__DATADESC_MAGIC = 0x08074b50"
definition PICOZIP__FLAG_DATADESC :: nat where "PICOZIP__FLAG_DATADESC = push_bit 3 1"

definition PICOZIP__LOCAL_HEADER_SIZE :: nat where "PICOZIP__LOCAL_HEADER_SIZE = 30"
definition PICOZIP__CD_HEADER_SIZE :: nat where "PICOZIP__CD_HEADER_SIZE = 46"
definition PICOZIP__EOCD_SIZE :: nat where "PICOZIP__EOCD_SIZE = 22"
definition PICOZIP__ATTR_SIZE :: nat where "PICOZIP__ATTR_SIZE = 4"
definition PICOZIP__LOCAL_TIMESTAMP_SIZE :: nat where "PICOZIP__LOCAL_TIMESTAMP_SIZE = 5"
definition PICOZIP__DATADESC_SIZE :: nat where "PICOZIP__DATADESC_SIZE = 16"
definition PICOZIP__SCRATCH_BUFFER_SIZE :: nat where "PICOZIP__SCRATCH_BUFFER_SIZE = 64"

text \<open>
  What \<^verbatim>\<open>sizeof\<close> gives on an LP64 platform. The sizes of the two structs only reach the
  allocation callback; the size of a pointer decides how many entries the pointer array
  of the ledger holds.
\<close>

definition sizeof_entry_ptr :: nat where "sizeof_entry_ptr = 8"
definition sizeof_picozip__entry :: nat where "sizeof_picozip__entry = 48"
definition sizeof_picozip_file :: nat where "sizeof_picozip_file = 136"

text \<open>The values the functions return: 0, the three \<^verbatim>\<open>errno.h\<close> constants, or \<^verbatim>\<open>errno\<close> itself.\<close>

datatype status = PICOZIP_OK | PICOZIP_EINVAL | PICOZIP_ENOMEM | PICOZIP_EIO | ERRNO

section \<open>Writing integers to bytes\<close>

text \<open>
  \<^verbatim>\<open>PICOZIP__WRITE_LE16(A, O, V)\<close> and \<^verbatim>\<open>PICOZIP__WRITE_LE32(A, O, V)\<close>: each byte is
  \<^verbatim>\<open>(uint8_t)((V) >> k)\<close>, whatever the width of \<^verbatim>\<open>V\<close>, so the value is a natural number
  and the macro keeps its low 16 or 32 bits.
\<close>

definition PICOZIP__WRITE_LE16 :: "u8 list \<Rightarrow> nat \<Rightarrow> nat \<Rightarrow> u8 list" where
  "PICOZIP__WRITE_LE16 A off V =
     A[off + 0 := of_nat (drop_bit 0 V), off + 1 := of_nat (drop_bit 8 V)]"

definition PICOZIP__WRITE_LE32 :: "u8 list \<Rightarrow> nat \<Rightarrow> nat \<Rightarrow> u8 list" where
  "PICOZIP__WRITE_LE32 A off V =
     A[off + 0 := of_nat (drop_bit 0 V), off + 1 := of_nat (drop_bit 8 V),
       off + 2 := of_nat (drop_bit 16 V), off + 3 := of_nat (drop_bit 24 V)]"

text \<open>\<^verbatim>\<open>memcpy(dst + off, src, n)\<close> inside a buffer that is long enough.\<close>

definition memcpy :: "u8 list \<Rightarrow> nat \<Rightarrow> u8 list \<Rightarrow> nat \<Rightarrow> u8 list" where
  "memcpy dst off src n = take off dst @ take n src @ drop (off + n) dst"

section \<open>DOS time\<close>

text \<open>
  \<^verbatim>\<open>struct tm\<close>, the fields the conversion reads. \<^verbatim>\<open>localtime\<close> belongs to the C library
  and the time zone of the process: the conversion takes it as a parameter.
\<close>

record tm =
  tm_sec :: int
  tm_min :: int
  tm_hour :: int
  tm_mday :: int
  tm_mon :: int
  tm_year :: int

text \<open>The result is the pair of the two output parameters, \<^verbatim>\<open>(dos_date, dos_time)\<close>.\<close>

definition picozip__time_to_dostime :: "(int \<Rightarrow> tm) \<Rightarrow> int \<Rightarrow> u16 \<times> u16" where
  "picozip__time_to_dostime localtime current_time =
     (let t = localtime current_time;
          t = (if tm_year t < 80
               then t\<lparr>tm_year := 80, tm_sec := 0, tm_min := 0, tm_hour := 0, tm_mon := 0,
                      tm_mday := 1\<rparr>
               else t);
          dos_time = of_int (push_bit 11 (tm_hour t) + push_bit 5 (tm_min t)
                             + drop_bit 1 (tm_sec t));
          dos_date = of_int (push_bit 9 (tm_year t + 1900 - 1980) + push_bit 5 (tm_mon t + 1)
                             + tm_mday t)
      in (dos_date, dos_time))"

section \<open>The entry ledger\<close>

text \<open>
  \<^verbatim>\<open>struct picozip__entry\<close>. \<^verbatim>\<open>time_t\<close> is a signed integer; the flexible array
  \<^verbatim>\<open>metadata\<close> is the byte list allocated behind the fixed fields.
\<close>

record picozip__entry =
  version_made :: u16
  version_extract :: u16
  flags :: u16
  comp_method :: u16
  mod_time :: int
  crc32 :: u32
  comp_size :: u32
  uncomp_size :: u32
  filename_len :: u16
  extra_field_len :: u16
  comment_len :: u16
  internal_attr :: u16
  external_attr :: u32
  header_offset :: u32
  metadata :: "u8 list"

text \<open>
  An entry object as the allocation callback hands it out. Its contents are
  indeterminate in C; both functions that allocate one assign every field and every
  metadata byte before anything reads them, so zero stands for the indeterminate value.
\<close>

definition fresh_entry :: "nat \<Rightarrow> picozip__entry" where
  "fresh_entry metadata_len =
     \<lparr>version_made = 0, version_extract = 0, flags = 0, comp_method = 0, mod_time = 0,
      crc32 = 0, comp_size = 0, uncomp_size = 0, filename_len = 0, extra_field_len = 0,
      comment_len = 0, internal_attr = 0, external_attr = 0, header_offset = 0,
      metadata = replicate metadata_len 0\<rparr>"

text \<open>
  One element of the array \<^verbatim>\<open>(picozip__entry **)file->entries.data\<close>: a pointer that was
  never written (or whose object was freed), or a pointer to an entry object. The entry is
  kept in the slot itself, so an assignment through the pointer \<^verbatim>\<open>entry\<close> is an update of
  the slot.
\<close>

datatype slot = Garbage | Entry picozip__entry

text \<open>
  \<^verbatim>\<open>struct picozip__vec\<close> for the ledger: \<^verbatim>\<open>data\<close> is the allocated block, one list
  element per pointer that fits into \<^verbatim>\<open>cap\<close> bytes; \<^verbatim>\<open>cap\<close> and \<^verbatim>\<open>size\<close> count bytes.
\<close>

record picozip__vec =
  data :: "slot list"
  cap :: nat
  size_v :: nat

text \<open>
  \<^verbatim>\<open>struct picozip__file\<close>. The three callbacks act on the state \<^typ>\<open>'u\<close> behind the
  \<^verbatim>\<open>userdata\<close> pointer: the allocator answers whether it returned a block, the writer
  answers with the number of bytes it took.
\<close>

record 'u picozip_file =
  alloc_cb :: "'u \<Rightarrow> nat \<Rightarrow> bool \<times> 'u"
  write_cb :: "'u \<Rightarrow> u8 list \<Rightarrow> nat \<times> 'u"
  free_cb :: "'u \<Rightarrow> 'u"
  offset :: nat
  num_entries :: nat
  entries :: picozip__vec
  userdata :: 'u
  scratch :: "u8 list"

text \<open>
  What C leaves undefined and the library can reach: an access to the pointer array
  outside its block, and a pointer that was never assigned handed to the free callback.
\<close>

datatype fault = Out_of_bounds | Invalid_pointer

text \<open>
  \<^verbatim>\<open>picozip__vec_alloc\<close> on the pointer array. \<^verbatim>\<open>None\<close> is the \<^verbatim>\<open>NULL\<close> result. A new
  block receives the first \<^verbatim>\<open>size\<close> bytes of the old one; the rest of it is unwritten.
\<close>

definition picozip__vec_alloc ::
  "picozip__vec \<Rightarrow> nat \<Rightarrow> ('u \<Rightarrow> nat \<Rightarrow> bool \<times> 'u) \<Rightarrow> 'u \<Rightarrow> picozip__vec option \<times> 'u" where
  "picozip__vec_alloc vec sz alloc u =
     (if size_v vec + sz > cap vec
      then (let new_cap = size_v vec + sz;
                (new_data, u) = alloc u new_cap
            in if \<not> new_data then (None, u)
               else (Some (vec\<lparr>data := take (size_v vec div sizeof_entry_ptr) (data vec)
                                      @ replicate (new_cap div sizeof_entry_ptr
                                                   - size_v vec div sizeof_entry_ptr) Garbage,
                                cap := new_cap\<rparr>), u))
      else (Some vec, u))"

text \<open>
  \<^verbatim>\<open>picozip_new\<close>. The first argument says whether \<^verbatim>\<open>ofile\<close> is a pointer; a callback
  that is \<^verbatim>\<open>NULL\<close> is \<^verbatim>\<open>None\<close>. The result carries the state behind \<^verbatim>\<open>userdata\<close> as the
  allocation left it.
\<close>

definition picozip_new ::
  "bool \<Rightarrow> ('u \<Rightarrow> u8 list \<Rightarrow> nat \<times> 'u) option \<Rightarrow> ('u \<Rightarrow> nat \<Rightarrow> bool \<times> 'u) option
   \<Rightarrow> ('u \<Rightarrow> 'u) option \<Rightarrow> 'u \<Rightarrow> status \<times> 'u picozip_file option \<times> 'u" where
  "picozip_new ofile wr al fr u =
     (case (wr, al, fr) of
        (Some wr, Some al, Some fr) \<Rightarrow>
          if \<not> ofile then (PICOZIP_EINVAL, None, u)
          else (let (file, u) = al u sizeof_picozip_file
                in if \<not> file then (PICOZIP_ENOMEM, None, u)
                   else (PICOZIP_OK,
                         Some \<lparr>alloc_cb = al, write_cb = wr, free_cb = fr, offset = 0,
                               num_entries = 0,
                               entries = \<lparr>data = [], cap = 0, size_v = 0\<rparr>,
                               userdata = u,
                               scratch = replicate PICOZIP__SCRATCH_BUFFER_SIZE 0\<rparr>, u))
      | _ \<Rightarrow> (PICOZIP_EINVAL, None, u))"

text \<open>
  \<^verbatim>\<open>picozip__alloc_entry\<close>: the result is the index of the slot that holds the new entry
  (the pointer \<^verbatim>\<open>entry\<close>), or \<^verbatim>\<open>None\<close> for \<^verbatim>\<open>NULL\<close>. The store
  \<^verbatim>\<open>entries[file->num_entries++] = entry\<close> is checked against the block.
\<close>

definition picozip__alloc_entry ::
  "'u picozip_file \<Rightarrow> nat \<Rightarrow> fault + nat option \<times> 'u picozip_file" where
  "picozip__alloc_entry file metadata_len =
     (case picozip__vec_alloc (entries file) sizeof_entry_ptr (alloc_cb file) (userdata file) of
        (None, u) \<Rightarrow> Inr (None, file\<lparr>userdata := u\<rparr>)
      | (Some vec, u) \<Rightarrow>
          (let (entry, u) = alloc_cb file u (sizeof_picozip__entry + metadata_len)
           in if \<not> entry then Inr (None, file\<lparr>entries := vec, userdata := u\<rparr>)
              else if num_entries file < length (data vec)
              then Inr (Some (num_entries file),
                        file\<lparr>entries := vec\<lparr>data := (data vec)[num_entries file :=
                                                          Entry (fresh_entry metadata_len)]\<rparr>,
                             userdata := u, num_entries := num_entries file + 1\<rparr>)
              else Inl Out_of_bounds))"

text \<open>Reading and assigning through an entry pointer held in slot \<^verbatim>\<open>i\<close>.\<close>

definition load_entry :: "'u picozip_file \<Rightarrow> nat \<Rightarrow> fault + picozip__entry" where
  "load_entry file i =
     (if i < length (data (entries file))
      then (case data (entries file) ! i of
              Garbage \<Rightarrow> Inl Invalid_pointer
            | Entry e \<Rightarrow> Inr e)
      else Inl Out_of_bounds)"

definition store_entry :: "'u picozip_file \<Rightarrow> nat \<Rightarrow> picozip__entry \<Rightarrow> 'u picozip_file" where
  "store_entry file i e =
     file\<lparr>entries := (entries file)\<lparr>data := (data (entries file))[i := Entry e]\<rparr>\<rparr>"

text \<open>
  Reading through the pointer \<^verbatim>\<open>entry\<close> a function holds itself: the object is the one
  in the slot the pointer was stored in.
\<close>

definition deref :: "'u picozip_file \<Rightarrow> nat \<Rightarrow> picozip__entry" where
  "deref file i = (case data (entries file) ! i of Entry e \<Rightarrow> e | Garbage \<Rightarrow> fresh_entry 0)"

text \<open>
  \<^verbatim>\<open>picozip__free_last_entry\<close>:
  \<^verbatim>\<open>free_cb(userdata, entries[file->num_entries--])\<close>. The index is the value of
  \<^verbatim>\<open>num_entries\<close> before the decrement.
\<close>

definition picozip__free_last_entry :: "'u picozip_file \<Rightarrow> fault + 'u picozip_file" where
  "picozip__free_last_entry file =
     (let i = num_entries file
      in if i < length (data (entries file))
         then (case data (entries file) ! i of
                 Garbage \<Rightarrow> Inl Invalid_pointer
               | Entry e \<Rightarrow>
                   Inr (file\<lparr>userdata := free_cb file (userdata file),
                             entries := (entries file)\<lparr>data := (data (entries file))[i := Garbage]\<rparr>,
                             num_entries := num_entries file - 1\<rparr>))
         else Inl Out_of_bounds)"

section \<open>Emitting bytes\<close>

text \<open>
  \<^verbatim>\<open>PICOZIP__FLUSH(FILE, SRC, SIZE, IFFAIL)\<close>: the boolean says whether the callback took
  all \<^verbatim>\<open>SIZE\<close> bytes; the caller runs \<^verbatim>\<open>IFFAIL\<close> when it did not. The offset moves only
  after a complete write.
\<close>

definition PICOZIP__FLUSH :: "'u picozip_file \<Rightarrow> u8 list \<Rightarrow> nat \<Rightarrow> bool \<times> 'u picozip_file" where
  "PICOZIP__FLUSH file src sz =
     (let (n, u) = write_cb file (userdata file) (take sz src)
      in if n \<noteq> sz then (False, file\<lparr>userdata := u\<rparr>)
         else (True, file\<lparr>userdata := u, offset := offset file + sz\<rparr>))"

text \<open>The twelve writes of \<^verbatim>\<open>picozip__write_local_entry\<close> into the scratch buffer.\<close>

definition local_header_scratch :: "(int \<Rightarrow> tm) \<Rightarrow> picozip__entry \<Rightarrow> u8 list \<Rightarrow> u8 list" where
  "local_header_scratch localtime entry s =
     (let s = PICOZIP__WRITE_LE32 s 0 PICOZIP__LOCAL_MAGIC;
          s = PICOZIP__WRITE_LE16 s 4 (unat (version_extract entry));
          s = PICOZIP__WRITE_LE16 s 6 (unat (flags entry));
          s = PICOZIP__WRITE_LE16 s 8 (unat (comp_method entry));
          (dos_date, dos_time) = picozip__time_to_dostime localtime (mod_time entry);
          s = PICOZIP__WRITE_LE16 s 10 (unat dos_time);
          s = PICOZIP__WRITE_LE16 s 12 (unat dos_date);
          s = PICOZIP__WRITE_LE32 s 14 (unat (crc32 entry));
          s = PICOZIP__WRITE_LE32 s 18 (unat (comp_size entry));
          s = PICOZIP__WRITE_LE32 s 22 (unat (uncomp_size entry));
          s = PICOZIP__WRITE_LE16 s 26 (unat (filename_len entry));
          s = PICOZIP__WRITE_LE16 s 28 (unat (extra_field_len entry))
      in s)"

definition picozip__write_local_entry ::
  "(int \<Rightarrow> tm) \<Rightarrow> 'u picozip_file \<Rightarrow> picozip__entry \<Rightarrow> status \<times> 'u picozip_file" where
  "picozip__write_local_entry localtime file entry =
     (let file = file\<lparr>scratch := local_header_scratch localtime entry (scratch file)\<rparr>;
          (ok, file) = PICOZIP__FLUSH file (scratch file) PICOZIP__LOCAL_HEADER_SIZE
      in if \<not> ok then (PICOZIP_EIO, file)
         else (let (ok, file) = PICOZIP__FLUSH file (metadata entry)
                                  (unat (filename_len entry) + unat (extra_field_len entry))
               in if \<not> ok then (PICOZIP_EIO, file) else (PICOZIP_OK, file)))"

section \<open>Adding an entry from memory\<close>

text \<open>
  A pointer argument together with its length argument (\<^verbatim>\<open>data\<close> and \<^verbatim>\<open>size\<close>,
  \<^verbatim>\<open>comment\<close> and \<^verbatim>\<open>comment_len\<close>): \<^verbatim>\<open>NULL\<close> with the length the caller passed, or a
  buffer of exactly that many bytes.
\<close>

datatype buf = NULL nat | Ptr "u8 list"

fun buf_len :: "buf \<Rightarrow> nat" where
  "buf_len (NULL n) = n"
| "buf_len (Ptr bs) = length bs"

fun buf_bytes :: "buf \<Rightarrow> u8 list" where
  "buf_bytes (NULL n) = []"
| "buf_bytes (Ptr bs) = bs"

fun is_null :: "buf \<Rightarrow> bool" where
  "is_null (NULL n) = True"
| "is_null (Ptr bs) = False"

text \<open>
  The lines both add functions share: the file name, the extended timestamp field and
  the comment are written into \<^verbatim>\<open>entry->metadata\<close>.
\<close>

definition fill_metadata :: "u8 list \<Rightarrow> u8 list \<Rightarrow> int \<Rightarrow> buf \<Rightarrow> u8 list" where
  "fill_metadata m path mtime comment =
     (let filename_len = length path;
          m = memcpy m 0 path filename_len;
          m = PICOZIP__WRITE_LE16 m filename_len PICOZIP__TIMESTAMP_MAGIC;
          m = PICOZIP__WRITE_LE16 m (filename_len + 2) PICOZIP__LOCAL_TIMESTAMP_SIZE;
          m = m[filename_len + 4 := 1];
          m = PICOZIP__WRITE_LE32 m (filename_len + 5) (unat (of_int mtime :: u32));
          m = memcpy m (filename_len + PICOZIP__ATTR_SIZE + PICOZIP__LOCAL_TIMESTAMP_SIZE)
                (buf_bytes comment) (buf_len comment)
      in m)"

text \<open>
  The rollback both add functions run when a write fails: free the last entry, then
  return the error.
\<close>

definition rollback ::
  "status \<Rightarrow> 'u picozip_file \<Rightarrow> fault + status \<times> 'u picozip_file option" where
  "rollback err file =
     (case picozip__free_last_entry file of
        Inl x \<Rightarrow> Inl x
      | Inr file \<Rightarrow> Inr (err, Some file))"

text \<open>
  The block \<^verbatim>\<open>/* populate the entry */\<close> of \<^verbatim>\<open>picozip_new_entry_mem_ex\<close>, down to the
  comment written into the metadata: the object behind \<^verbatim>\<open>entry\<close> after these assignments,
  from the fresh object of \<^verbatim>\<open>metadata_len\<close> bytes and the current \<^verbatim>\<open>file->offset\<close>.
\<close>

definition mem_entry :: "nat \<Rightarrow> nat \<Rightarrow> u8 list \<Rightarrow> buf \<Rightarrow> int \<Rightarrow> buf \<Rightarrow> picozip__entry" where
  "mem_entry metadata_len file_offset p dat mtime comment =
     (let e = fresh_entry metadata_len;
          e = e\<lparr>version_made := 0,
                version_extract := of_nat PICOZIP__MIN_VERSION,
                flags := 0, comp_method := 0,
                internal_attr := 0, external_attr := 0,
                header_offset := of_nat file_offset,
                mod_time := mtime,
                comp_size := of_nat (buf_len dat),
                uncomp_size := of_nat (buf_len dat),
                filename_len := of_nat (length p),
                extra_field_len := of_nat (PICOZIP__ATTR_SIZE + PICOZIP__LOCAL_TIMESTAMP_SIZE),
                comment_len := of_nat (buf_len comment),
                crc32 := picozip__crc32 (buf_bytes dat) PICOZIP__CRC_START XOR 0xFFFFFFFF\<rparr>;
          e = e\<lparr>metadata := fill_metadata (metadata e) p mtime comment\<rparr>
      in e)"

text \<open>
  \<^verbatim>\<open>picozip_new_entry_mem_ex\<close>. The path is the bytes of the C string before its
  terminator. \<^verbatim>\<open>entry\<close> is the slot \<^verbatim>\<open>picozip__alloc_entry\<close> filled; the object behind it
  is the fresh one, and the assignments through the pointer end in the slot.
\<close>

definition picozip_new_entry_mem_ex ::
  "(int \<Rightarrow> tm) \<Rightarrow> 'u picozip_file option \<Rightarrow> u8 list option \<Rightarrow> buf \<Rightarrow> int \<Rightarrow> buf
   \<Rightarrow> fault + status \<times> 'u picozip_file option" where
  "picozip_new_entry_mem_ex localtime file path dat mtime comment =
     (case (file, path) of
        (Some f, Some p) \<Rightarrow>
          if (buf_len dat \<noteq> 0 \<and> is_null dat) \<or> (buf_len comment \<noteq> 0 \<and> is_null comment)
          then Inr (PICOZIP_EINVAL, file)
          else
            (let filename_len = length p;
                 metadata_len = filename_len + buf_len comment + PICOZIP__ATTR_SIZE
                                + PICOZIP__LOCAL_TIMESTAMP_SIZE
             in case picozip__alloc_entry f metadata_len of
                  Inl x \<Rightarrow> Inl x
                | Inr (None, f) \<Rightarrow> Inr (PICOZIP_ENOMEM, Some f)
                | Inr (Some entry, f) \<Rightarrow>
                    (let e = mem_entry metadata_len (offset f) p dat mtime comment;
                         f = store_entry f entry e;
                         (err, f) = picozip__write_local_entry localtime f e
                     in if err \<noteq> PICOZIP_OK then rollback err f
                        else (let (ok, f) = PICOZIP__FLUSH f (buf_bytes dat) (buf_len dat)
                              in if \<not> ok then rollback PICOZIP_EIO f
                                 else Inr (PICOZIP_OK, Some f))))
      | _ \<Rightarrow> Inr (PICOZIP_EINVAL, file))"


text \<open>\<^verbatim>\<open>picozip_new_entry_mem\<close>; \<^verbatim>\<open>now\<close> is what \<^verbatim>\<open>time(NULL)\<close> returns.\<close>

definition picozip_new_entry_mem ::
  "(int \<Rightarrow> tm) \<Rightarrow> int \<Rightarrow> 'u picozip_file option \<Rightarrow> u8 list option \<Rightarrow> buf
   \<Rightarrow> fault + status \<times> 'u picozip_file option" where
  "picozip_new_entry_mem localtime now file path dat =
     picozip_new_entry_mem_ex localtime file path dat now (NULL 0)"

section \<open>Finalizing\<close>

text \<open>The writes of one round of the loop of \<^verbatim>\<open>picozip_end_ex\<close> into the scratch buffer.\<close>

definition central_header_scratch :: "(int \<Rightarrow> tm) \<Rightarrow> picozip__entry \<Rightarrow> u8 list \<Rightarrow> u8 list" where
  "central_header_scratch localtime entry s =
     (let s = PICOZIP__WRITE_LE32 s 0 PICOZIP__CENTRAL_MAGIC;
          s = PICOZIP__WRITE_LE16 s 4 (unat (version_made entry));
          s = PICOZIP__WRITE_LE16 s 6 (unat (version_extract entry));
          s = PICOZIP__WRITE_LE16 s 8 (unat (flags entry));
          s = PICOZIP__WRITE_LE16 s 10 (unat (comp_method entry));
          (dos_date, dos_time) = picozip__time_to_dostime localtime (mod_time entry);
          s = PICOZIP__WRITE_LE16 s 12 (unat dos_time);
          s = PICOZIP__WRITE_LE16 s 14 (unat dos_date);
          s = PICOZIP__WRITE_LE32 s 16 (unat (crc32 entry));
          s = PICOZIP__WRITE_LE32 s 20 (unat (comp_size entry));
          s = PICOZIP__WRITE_LE32 s 24 (unat (uncomp_size entry));
          s = PICOZIP__WRITE_LE16 s 28 (unat (filename_len entry));
          s = PICOZIP__WRITE_LE16 s 30 (unat (extra_field_len entry));
          s = PICOZIP__WRITE_LE16 s 32 (unat (comment_len entry));
          s = PICOZIP__WRITE_LE16 s 34 0;
          s = PICOZIP__WRITE_LE16 s 36 (unat (internal_attr entry));
          s = PICOZIP__WRITE_LE32 s 38 (unat (external_attr entry));
          s = PICOZIP__WRITE_LE32 s 42 (unat (header_offset entry))
      in s)"

text \<open>
  The loop \<^verbatim>\<open>for (i = 0; i < file->num_entries; i++)\<close> from index \<^verbatim>\<open>i\<close> on, with the
  running \<^verbatim>\<open>cd_size\<close>. It ends with \<^verbatim>\<open>PICOZIP_EIO\<close> where the function returns from
  inside the loop and with \<^verbatim>\<open>PICOZIP_OK\<close> where the loop is left.
\<close>

function central_directory ::
  "(int \<Rightarrow> tm) \<Rightarrow> 'u picozip_file \<Rightarrow> nat \<Rightarrow> nat \<Rightarrow> fault + status \<times> 'u picozip_file \<times> nat" where
  "central_directory localtime file i cd_size =
     (if i < num_entries file
      then (case load_entry file i of
              Inl x \<Rightarrow> Inl x
            | Inr entry \<Rightarrow>
                (let f1 = file\<lparr>scratch := central_header_scratch localtime entry (scratch file)\<rparr>;
                     r1 = PICOZIP__FLUSH f1 (scratch f1) PICOZIP__CD_HEADER_SIZE
                 in if \<not> fst r1 then Inr (PICOZIP_EIO, snd r1, cd_size)
                    else (let r2 = PICOZIP__FLUSH (snd r1) (metadata entry)
                                     (unat (filename_len entry) + unat (extra_field_len entry)
                                      + unat (comment_len entry))
                          in if \<not> fst r2 then Inr (PICOZIP_EIO, snd r2, cd_size)
                             else central_directory localtime (snd r2) (i + 1)
                                    (cd_size + PICOZIP__CD_HEADER_SIZE + unat (filename_len entry)
                                     + unat (extra_field_len entry) + unat (comment_len entry)))))
      else Inr (PICOZIP_OK, file, cd_size))"
  by pat_completeness auto
termination
  by (relation "measure (\<lambda>(localtime, file, i, cd_size). num_entries file - i)")
     (auto simp add: PICOZIP__FLUSH_def Let_def split: prod.splits if_splits)

declare central_directory.simps [simp del]

text \<open>The writes for the end-of-central-directory record.\<close>

definition eocd_scratch :: "nat \<Rightarrow> nat \<Rightarrow> nat \<Rightarrow> nat \<Rightarrow> u8 list \<Rightarrow> u8 list" where
  "eocd_scratch n cd_size cd_offset clen s =
     (let s = PICOZIP__WRITE_LE32 s 0 PICOZIP__EOCD_MAGIC;
          s = PICOZIP__WRITE_LE16 s 4 0;
          s = PICOZIP__WRITE_LE16 s 6 0;
          s = PICOZIP__WRITE_LE16 s 8 n;
          s = PICOZIP__WRITE_LE16 s 10 n;
          s = PICOZIP__WRITE_LE32 s 12 cd_size;
          s = PICOZIP__WRITE_LE32 s 16 cd_offset;
          s = PICOZIP__WRITE_LE16 s 20 clen
      in s)"

definition picozip_end_ex ::
  "(int \<Rightarrow> tm) \<Rightarrow> 'u picozip_file option \<Rightarrow> buf \<Rightarrow> fault + status \<times> 'u picozip_file option" where
  "picozip_end_ex localtime file comment =
     (case file of
        None \<Rightarrow> Inr (PICOZIP_EINVAL, file)
      | Some f \<Rightarrow>
          if buf_len comment \<noteq> 0 \<and> is_null comment then Inr (PICOZIP_EINVAL, file)
          else
            (let cd_offset = offset f
             in case central_directory localtime f 0 0 of
                  Inl x \<Rightarrow> Inl x
                | Inr (err, f, cd_size) \<Rightarrow>
                    if err \<noteq> PICOZIP_OK then Inr (err, Some f)
                    else
                      (let f = f\<lparr>scratch := eocd_scratch (num_entries f) cd_size cd_offset
                                                (buf_len comment) (scratch f)\<rparr>;
                           (ok, f) = PICOZIP__FLUSH f (scratch f) PICOZIP__EOCD_SIZE
                       in if \<not> ok then Inr (PICOZIP_EIO, Some f)
                          else if is_null comment then Inr (PICOZIP_OK, Some f)
                          else (let (ok, f) = PICOZIP__FLUSH f (buf_bytes comment) (buf_len comment)
                                in if \<not> ok then Inr (PICOZIP_EIO, Some f)
                                   else Inr (PICOZIP_OK, Some f)))))"

definition picozip_end ::
  "(int \<Rightarrow> tm) \<Rightarrow> 'u picozip_file option \<Rightarrow> fault + status \<times> 'u picozip_file option" where
  "picozip_end localtime file =
     (case file of
        Some f \<Rightarrow> picozip_end_ex localtime file (NULL 0)
      | None \<Rightarrow> Inr (PICOZIP_EINVAL, file))"

section \<open>Adding an entry from a stream\<close>

text \<open>
  A \<^verbatim>\<open>FILE *\<close> open for reading: what \<^verbatim>\<open>fstat\<close> reports as its modification time
  (\<^verbatim>\<open>None\<close> when \<^verbatim>\<open>fstat\<close> fails) and the bytes \<^verbatim>\<open>fread\<close> still has to deliver.
  \<^verbatim>\<open>fread\<close> fills the buffer while bytes are left and comes up short at the end of them.
\<close>

record FILE =
  st_mtime :: "int option"
  contents :: "u8 list"

text \<open>
  The \<^verbatim>\<open>do ... while (data_read == PICOZIP_READ_BUF)\<close> loop of
  \<^verbatim>\<open>picozip_new_entry_file\<close>: \<^verbatim>\<open>fptr\<close> is what is left to read, \<^verbatim>\<open>entry\<close> the slot of the
  entry. \<^verbatim>\<open>False\<close> says that a write failed (the caller rolls back).
\<close>

function stream_content ::
  "'u picozip_file \<Rightarrow> nat \<Rightarrow> u8 list \<Rightarrow> nat \<Rightarrow> bool \<times> 'u picozip_file \<times> nat" where
  "stream_content file entry fptr file_size =
     (let buffer = take PICOZIP_READ_BUF fptr;
          data_read = length buffer;
          e = deref file entry;
          file = store_entry file entry (e\<lparr>crc32 := picozip__crc32 buffer (crc32 e)\<rparr>);
          r = PICOZIP__FLUSH file buffer data_read
      in if \<not> fst r then (False, snd r, file_size)
         else if data_read = PICOZIP_READ_BUF
         then stream_content (snd r) entry (drop PICOZIP_READ_BUF fptr) (file_size + data_read)
         else (True, snd r, file_size + data_read))"
  by pat_completeness auto
termination
  by (relation "measure (\<lambda>(file, entry, fptr, file_size). length fptr)")
     (auto simp add: PICOZIP_READ_BUF_def)

declare stream_content.simps [simp del]

text \<open>The writes for the data descriptor.\<close>

definition datadesc_scratch :: "picozip__entry \<Rightarrow> u8 list \<Rightarrow> u8 list" where
  "datadesc_scratch entry s =
     (let s = PICOZIP__WRITE_LE32 s 0 PICOZIP__DATADESC_MAGIC;
          s = PICOZIP__WRITE_LE32 s 4 (unat (crc32 entry));
          s = PICOZIP__WRITE_LE32 s 8 (unat (comp_size entry));
          s = PICOZIP__WRITE_LE32 s 12 (unat (uncomp_size entry))
      in s)"

text \<open>
  The block \<^verbatim>\<open>/* populate the entry */\<close> of \<^verbatim>\<open>picozip_new_entry_file\<close>, down to the
  comment written into the metadata.
\<close>

definition stream_entry :: "nat \<Rightarrow> nat \<Rightarrow> u8 list \<Rightarrow> int \<Rightarrow> buf \<Rightarrow> picozip__entry" where
  "stream_entry metadata_len file_offset p mtime comment =
     (let e = fresh_entry metadata_len;
          e = e\<lparr>version_made := 0,
                version_extract := of_nat PICOZIP__MIN_VERSION,
                flags := of_nat PICOZIP__FLAG_DATADESC,
                comp_method := 0, internal_attr := 0, external_attr := 0,
                header_offset := of_nat file_offset,
                mod_time := mtime,
                comp_size := 0, uncomp_size := 0, crc32 := 0,
                filename_len := of_nat (length p),
                extra_field_len := of_nat (PICOZIP__ATTR_SIZE + PICOZIP__LOCAL_TIMESTAMP_SIZE),
                comment_len := of_nat (buf_len comment)\<rparr>;
          e = e\<lparr>metadata := fill_metadata (metadata e) p mtime comment\<rparr>
      in e)"

text \<open>\<^verbatim>\<open>picozip_new_entry_file\<close>, compiled where \<^verbatim>\<open>fstat\<close> exists.\<close>

definition picozip_new_entry_file ::
  "(int \<Rightarrow> tm) \<Rightarrow> 'u picozip_file option \<Rightarrow> u8 list option \<Rightarrow> FILE option \<Rightarrow> buf
   \<Rightarrow> fault + status \<times> 'u picozip_file option" where
  "picozip_new_entry_file localtime file path fptr comment =
     (case (file, path, fptr) of
        (Some f, Some p, Some fp) \<Rightarrow>
          if buf_len comment \<noteq> 0 \<and> is_null comment then Inr (PICOZIP_EINVAL, file)
          else
            (case st_mtime fp of
               None \<Rightarrow> Inr (ERRNO, file)
             | Some mtime \<Rightarrow>
                 (let filename_len = length p;
                      metadata_len = filename_len + buf_len comment + PICOZIP__ATTR_SIZE
                                     + PICOZIP__LOCAL_TIMESTAMP_SIZE
                  in case picozip__alloc_entry f metadata_len of
                       Inl x \<Rightarrow> Inl x
                     | Inr (None, f) \<Rightarrow> Inr (PICOZIP_ENOMEM, Some f)
                     | Inr (Some entry, f) \<Rightarrow>
                         (let e = stream_entry metadata_len (offset f) p mtime comment;
                              f = store_entry f entry e;
                              (err, f) = picozip__write_local_entry localtime f e
                          in if err \<noteq> PICOZIP_OK then rollback err f
                             else
                               (let f = store_entry f entry (e\<lparr>crc32 := PICOZIP__CRC_START\<rparr>);
                                    (ok, f, file_size) = stream_content f entry (contents fp) 0
                                in if \<not> ok then rollback PICOZIP_EIO f
                                   else
                                     (let e = deref f entry;
                                          e = e\<lparr>crc32 := crc32 e XOR 0xFFFFFFFF\<rparr>;
                                          e = e\<lparr>comp_size := of_nat file_size,
                                                uncomp_size := of_nat file_size\<rparr>;
                                          f = store_entry f entry e;
                                          f = f\<lparr>scratch := datadesc_scratch e (scratch f)\<rparr>;
                                          (ok, f) = PICOZIP__FLUSH f (scratch f)
                                                      PICOZIP__DATADESC_SIZE
                                      in if \<not> ok then rollback PICOZIP_EIO f
                                         else Inr (PICOZIP_OK, Some f))))))
      | _ \<Rightarrow> Inr (PICOZIP_EINVAL, file))"


section \<open>Reading the output\<close>

text \<open>
  \<^verbatim>\<open>READ_LE16(D, O)\<close> and \<^verbatim>\<open>READ_LE32(D, O)\<close> of \<^verbatim>\<open>tests/tests.c\<close>, with which the tests
  read the fields of the records back from the archive.
\<close>

definition READ_LE16 :: "u8 list \<Rightarrow> nat \<Rightarrow> u16" where
  "READ_LE16 D off = push_bit 0 (ucast (D ! off)) OR push_bit 8 (ucast (D ! (off + 1)))"

definition READ_LE32 :: "u8 list \<Rightarrow> nat \<Rightarrow> u32" where
  "READ_LE32 D off =
     push_bit 0 (ucast (D ! off)) OR push_bit 8 (ucast (D ! (off + 1)))
     OR push_bit 16 (ucast (D ! (off + 2))) OR push_bit 24 (ucast (D ! (off + 3)))"

text \<open>The bytes \<^verbatim>\<open>D[O]\<close> to \<^verbatim>\<open>D[O + n - 1]\<close>, as \<^verbatim>\<open>ASSERT_MEM_EQ\<close> compares them.\<close>

definition bytes_at :: "u8 list \<Rightarrow> nat \<Rightarrow> nat \<Rightarrow> u8 list" where
  "bytes_at D off n = take n (drop off D)"

text \<open>The two and the four bytes the write macros put down for a value.\<close>

definition le16 :: "nat \<Rightarrow> u8 list" where
  "le16 V = [of_nat V, of_nat (drop_bit 8 V)]"

definition le32 :: "nat \<Rightarrow> u8 list" where
  "le32 V = [of_nat V, of_nat (drop_bit 8 V), of_nat (drop_bit 16 V), of_nat (drop_bit 24 V)]"

text \<open>The nine bytes of the extended timestamp field for a modification time.\<close>

definition timestamp_field :: "int \<Rightarrow> u8 list" where
  "timestamp_field mtime =
     le16 PICOZIP__TIMESTAMP_MAGIC @ le16 PICOZIP__LOCAL_TIMESTAMP_SIZE @ [1]
     @ le32 (unat (of_int mtime :: u32))"

text \<open>
  The fixed parts of the four records as they leave the scratch buffer: its first 30, 46,
  16 and 22 bytes after the writes.
\<close>

definition local_header :: "(int \<Rightarrow> tm) \<Rightarrow> picozip__entry \<Rightarrow> u8 list" where
  "local_header localtime e =
     take PICOZIP__LOCAL_HEADER_SIZE
       (local_header_scratch localtime e (replicate PICOZIP__SCRATCH_BUFFER_SIZE 0))"

definition central_header :: "(int \<Rightarrow> tm) \<Rightarrow> picozip__entry \<Rightarrow> u8 list" where
  "central_header localtime e =
     take PICOZIP__CD_HEADER_SIZE
       (central_header_scratch localtime e (replicate PICOZIP__SCRATCH_BUFFER_SIZE 0))"

definition data_descriptor :: "picozip__entry \<Rightarrow> u8 list" where
  "data_descriptor e =
     take PICOZIP__DATADESC_SIZE (datadesc_scratch e (replicate PICOZIP__SCRATCH_BUFFER_SIZE 0))"

definition eocd :: "nat \<Rightarrow> nat \<Rightarrow> nat \<Rightarrow> nat \<Rightarrow> u8 list" where
  "eocd n cd_size cd_offset clen =
     take PICOZIP__EOCD_SIZE
       (eocd_scratch n cd_size cd_offset clen (replicate PICOZIP__SCRATCH_BUFFER_SIZE 0))"

text \<open>
  What the central directory loop flushes for one entry, and what the two flushes of
  \<^verbatim>\<open>picozip__write_local_entry\<close> send.
\<close>

definition central_record :: "(int \<Rightarrow> tm) \<Rightarrow> picozip__entry \<Rightarrow> u8 list" where
  "central_record localtime e =
     central_header localtime e
     @ take (unat (filename_len e) + unat (extra_field_len e) + unat (comment_len e)) (metadata e)"

definition local_record :: "(int \<Rightarrow> tm) \<Rightarrow> picozip__entry \<Rightarrow> u8 list" where
  "local_record localtime e =
     local_header localtime e
     @ take (unat (filename_len e) + unat (extra_field_len e)) (metadata e)"

text \<open>
  The ledger: the entries behind the first \<^verbatim>\<open>num_entries\<close> pointers, in the order they were
  added. An entry is sound when its three length fields stay inside its metadata.
\<close>

definition ledger :: "'u picozip_file \<Rightarrow> picozip__entry list" where
  "ledger file = map (deref file) [0..<num_entries file]"

definition entry_ok :: "picozip__entry \<Rightarrow> bool" where
  "entry_ok e \<longleftrightarrow>
     unat (filename_len e) + unat (extra_field_len e) + unat (comment_len e)
     \<le> length (metadata e)"

text \<open>The bytes of the central directory for a list of entries.\<close>

definition central_directory_bytes :: "(int \<Rightarrow> tm) \<Rightarrow> picozip__entry list \<Rightarrow> u8 list" where
  "central_directory_bytes localtime es = concat (map (central_record localtime) es)"

text \<open>
  The destination is behind the write callback. A function \<^verbatim>\<open>out\<close> is a view of the
  bytes the destination holds when every complete write appends its bytes to it and the
  other two callbacks leave it alone. Nothing is asked of a write that is not complete.
\<close>

definition observes :: "'u picozip_file \<Rightarrow> ('u \<Rightarrow> u8 list) \<Rightarrow> bool" where
  "observes file out \<longleftrightarrow>
     (\<forall>u bs u'. write_cb file u bs = (length bs, u') \<longrightarrow> out u' = out u @ bs)
     \<and> (\<forall>u n. out (snd (alloc_cb file u n)) = out u)
     \<and> (\<forall>u. out (free_cb file u) = out u)"

text \<open>
  The callbacks of \<^verbatim>\<open>tests/tests.c\<close>: \<^verbatim>\<open>custom_alloc\<close> and \<^verbatim>\<open>custom_write\<close> succeed
  while their counters \<^verbatim>\<open>num_alloc_success\<close> and \<^verbatim>\<open>num_write_success\<close> last. The bytes
  \<^verbatim>\<open>custom_write\<close> takes are kept in \<^verbatim>\<open>mem\<close>, as \<^verbatim>\<open>picozip__mem_write\<close> keeps them.
\<close>

record harness =
  num_alloc_success :: nat
  num_write_success :: nat
  mem :: "u8 list"

definition custom_alloc :: "harness \<Rightarrow> nat \<Rightarrow> bool \<times> harness" where
  "custom_alloc u sz =
     (if num_alloc_success u = 0 then (False, u)
      else (True, u\<lparr>num_alloc_success := num_alloc_success u - 1\<rparr>))"

definition custom_free :: "harness \<Rightarrow> harness" where
  "custom_free u = u"

definition custom_write :: "harness \<Rightarrow> u8 list \<Rightarrow> nat \<times> harness" where
  "custom_write u bs =
     (if num_write_success u = 0 then (0, u)
      else (length bs, u\<lparr>num_write_success := num_write_success u - 1, mem := mem u @ bs\<rparr>))"

text \<open>
  A session as \<^verbatim>\<open>picozip_new\<close> returns it over these callbacks, with \<^verbatim>\<open>a\<close> allocations and
  \<^verbatim>\<open>w\<close> writes left to succeed after its own allocation.
\<close>

definition new_session :: "nat \<Rightarrow> nat \<Rightarrow> harness picozip_file" where
  "new_session a w =
     \<lparr>alloc_cb = custom_alloc, write_cb = custom_write, free_cb = custom_free, offset = 0,
      num_entries = 0, entries = \<lparr>data = [], cap = 0, size_v = 0\<rparr>,
      userdata = \<lparr>num_alloc_success = a, num_write_success = w, mem = []\<rparr>,
      scratch = replicate 64 0\<rparr>"

text \<open>\<^verbatim>\<open>localtime\<close> in UTC, for the one instant the examples use: the epoch.\<close>

definition localtime_utc :: "int \<Rightarrow> tm" where
  "localtime_utc t = \<lparr>tm_sec = 0, tm_min = 0, tm_hour = 0, tm_mday = 1, tm_mon = 0, tm_year = 70\<rparr>"


section \<open>The two ways to add an entry\<close>

text \<open>
  The content argument of the two add functions: a buffer with its modification time for
  \<^verbatim>\<open>picozip_new_entry_mem_ex\<close>, an open stream for \<^verbatim>\<open>picozip_new_entry_file\<close>.
\<close>

datatype source = Known buf int | Streamed FILE

definition add_entry ::
  "(int \<Rightarrow> tm) \<Rightarrow> 'u picozip_file option \<Rightarrow> u8 list option \<Rightarrow> source \<Rightarrow> buf
   \<Rightarrow> fault + status \<times> 'u picozip_file option" where
  "add_entry localtime file path src comment =
     (case src of
        Known dat mtime \<Rightarrow> picozip_new_entry_mem_ex localtime file path dat mtime comment
      | Streamed fp \<Rightarrow> picozip_new_entry_file localtime file path (Some fp) comment)"

text \<open>The content bytes of a source and the modification time that goes with it.\<close>

definition content :: "source \<Rightarrow> u8 list" where
  "content src = (case src of Known dat mtime \<Rightarrow> buf_bytes dat | Streamed fp \<Rightarrow> contents fp)"

definition src_mtime :: "source \<Rightarrow> int" where
  "src_mtime src =
     (case src of
        Known dat mtime \<Rightarrow> mtime
      | Streamed fp \<Rightarrow> (case st_mtime fp of Some mtime \<Rightarrow> mtime | None \<Rightarrow> 0))"

text \<open>
  The entry as the add function has populated it when it writes the local header, and as
  it stands in the ledger when the function returns: the streamed protocol assigns the
  CRC and the sizes after the content has gone out.
\<close>

definition header_entry :: "nat \<Rightarrow> u8 list \<Rightarrow> source \<Rightarrow> buf \<Rightarrow> picozip__entry" where
  "header_entry file_offset p src comment =
     (case src of
        Known dat mtime \<Rightarrow>
          mem_entry (length p + buf_len comment + PICOZIP__ATTR_SIZE
                     + PICOZIP__LOCAL_TIMESTAMP_SIZE) file_offset p dat mtime comment
      | Streamed fp \<Rightarrow>
          stream_entry (length p + buf_len comment + PICOZIP__ATTR_SIZE
                        + PICOZIP__LOCAL_TIMESTAMP_SIZE) file_offset p (src_mtime src) comment)"

definition final_entry :: "nat \<Rightarrow> u8 list \<Rightarrow> source \<Rightarrow> buf \<Rightarrow> picozip__entry" where
  "final_entry file_offset p src comment =
     (case src of
        Known dat mtime \<Rightarrow> header_entry file_offset p src comment
      | Streamed fp \<Rightarrow>
          (header_entry file_offset p src comment)
            \<lparr>crc32 := picozip__crc32 (contents fp) PICOZIP__CRC_START XOR 0xFFFFFFFF,
             comp_size := of_nat (length (contents fp)),
             uncomp_size := of_nat (length (contents fp))\<rparr>)"

text \<open>What follows the content in the output: the data descriptor of a streamed entry.\<close>

definition trailer :: "nat \<Rightarrow> u8 list \<Rightarrow> source \<Rightarrow> buf \<Rightarrow> u8 list" where
  "trailer file_offset p src comment =
     (case src of
        Known dat mtime \<Rightarrow> []
      | Streamed fp \<Rightarrow> data_descriptor (final_entry file_offset p src comment))"

section \<open>A run of adds\<close>

text \<open>
  A caller that adds one entry after the other and stops at the first call that does not
  return \<^verbatim>\<open>PICOZIP_OK\<close>, as the tests do. A request is the path, the content and the
  comment of one call.
\<close>

type_synonym add_request = "u8 list \<times> source \<times> buf"

fun add_entries ::
  "(int \<Rightarrow> tm) \<Rightarrow> 'u picozip_file \<Rightarrow> add_request list
   \<Rightarrow> fault + status \<times> 'u picozip_file option" where
  "add_entries localtime f [] = Inr (PICOZIP_OK, Some f)"
| "add_entries localtime f ((p, src, c) # xs) =
     (case add_entry localtime (Some f) (Some p) src c of
        Inr (PICOZIP_OK, Some f') \<Rightarrow> add_entries localtime f' xs
      | r \<Rightarrow> r)"

text \<open>The same caller, finalizing with comment \<^verbatim>\<open>c\<close> once every add has succeeded.\<close>

definition finalize_after ::
  "(int \<Rightarrow> tm) \<Rightarrow> 'u picozip_file \<Rightarrow> add_request list \<Rightarrow> buf
   \<Rightarrow> fault + status \<times> 'u picozip_file option" where
  "finalize_after localtime f xs c =
     (case add_entries localtime f xs of
        Inr (PICOZIP_OK, Some f') \<Rightarrow> picozip_end_ex localtime (Some f') c
      | r \<Rightarrow> r)"

text \<open>
  What a call returned, and the state behind \<^verbatim>\<open>userdata\<close> it left (\<^verbatim>\<open>u\<close> when it left no
  session).
\<close>

definition status_of :: "fault + status \<times> 'u picozip_file option \<Rightarrow> status option" where
  "status_of r = (case r of Inl x \<Rightarrow> None | Inr (s, f) \<Rightarrow> Some s)"

definition userdata_of :: "'u \<Rightarrow> fault + status \<times> 'u picozip_file option \<Rightarrow> 'u" where
  "userdata_of u r = (case r of Inr (s, Some f) \<Rightarrow> userdata f | _ \<Rightarrow> u)"

text \<open>
  What a request puts into the output when it is added at offset \<^verbatim>\<open>off\<close>: the local
  record, the content, and the data descriptor of a streamed entry. The layout of a run
  pairs every request with the offset at which its bytes start, each one where the bytes
  of the one before end.
\<close>

fun on_disk :: "(int \<Rightarrow> tm) \<Rightarrow> nat \<times> add_request \<Rightarrow> u8 list" where
  "on_disk localtime (off, p, src, c) =
     local_record localtime (header_entry off p src c) @ content src @ trailer off p src c"

fun ledger_entry :: "nat \<times> add_request \<Rightarrow> picozip__entry" where
  "ledger_entry (off, p, src, c) = final_entry off p src c"

fun layout :: "(int \<Rightarrow> tm) \<Rightarrow> nat \<Rightarrow> add_request list \<Rightarrow> (nat \<times> add_request) list" where
  "layout localtime off [] = []"
| "layout localtime off (x # xs) =
     (off, x) # layout localtime (off + length (on_disk localtime (off, x))) xs"

section \<open>Callbacks that never fail\<close>

text \<open>
  An allocator that always returns a block and a write callback that takes every byte
  and keeps it: the state behind \<^verbatim>\<open>userdata\<close> is the bytes written so far.
  \<^verbatim>\<open>sure_session\<close> is the session \<^verbatim>\<open>picozip_new\<close> returns over them.
  \<^verbatim>\<open>slack_session k\<close> is a session over them with no entries, whose pointer array is a
  block that holds \<^verbatim>\<open>k\<close> pointers although \<^verbatim>\<open>picozip__vec_alloc\<close> asked for the 8 bytes of
  one: an allocator may hand out more than it was asked for.
\<close>

definition sure_alloc :: "u8 list \<Rightarrow> nat \<Rightarrow> bool \<times> u8 list" where
  "sure_alloc u sz = (True, u)"

definition sure_write :: "u8 list \<Rightarrow> u8 list \<Rightarrow> nat \<times> u8 list" where
  "sure_write u bs = (length bs, u @ bs)"

definition sure_free :: "u8 list \<Rightarrow> u8 list" where
  "sure_free u = u"

definition sure_session :: "(u8 list) picozip_file" where
  "sure_session =
     \<lparr>alloc_cb = sure_alloc, write_cb = sure_write, free_cb = sure_free, offset = 0,
      num_entries = 0, entries = \<lparr>data = [], cap = 0, size_v = 0\<rparr>,
      userdata = [], scratch = replicate PICOZIP__SCRATCH_BUFFER_SIZE 0\<rparr>"

definition slack_session :: "nat \<Rightarrow> (u8 list) picozip_file" where
  "slack_session k =
     \<lparr>alloc_cb = sure_alloc, write_cb = sure_write, free_cb = sure_free, offset = 0,
      num_entries = 0,
      entries = \<lparr>data = replicate k Garbage, cap = sizeof_entry_ptr, size_v = 0\<rparr>,
      userdata = [], scratch = replicate PICOZIP__SCRATCH_BUFFER_SIZE 0\<rparr>"

section \<open>Example sessions\<close>

text \<open>
  A one-byte file from memory, the same file from a stream, and an entry without
  content, as a directory marker is added.
\<close>

definition src_a :: source where
  "src_a = Known (Ptr [1]) 0"

definition src_s :: source where
  "src_s = Streamed \<lparr>st_mtime = Some 0, contents = [1]\<rparr>"

definition src_d :: source where
  "src_d = Known (NULL 0) 0"

text \<open>
  The session an add function leaves when it adds \<^verbatim>\<open>src\<close> under the path \<^verbatim>\<open>p\<close>, without a
  comment, to \<^verbatim>\<open>new_session 9 9\<close>; \<^verbatim>\<open>w\<close> is the number of writes left to succeed.
\<close>

definition session_of :: "u8 list \<Rightarrow> source \<Rightarrow> nat \<Rightarrow> harness picozip_file" where
  "session_of p src w =
     (new_session 9 9)
       \<lparr>offset := 30 + unat (of_nat (length p) :: u16) + 9 + length (content src)
                  + length (trailer 0 p src (NULL 0)),
        num_entries := 1,
        entries := \<lparr>data = [Entry (final_entry 0 p src (NULL 0))], cap = 8, size_v = 0\<rparr>,
        userdata := \<lparr>num_alloc_success = 7, num_write_success = w,
                     mem = local_record localtime_utc (header_entry 0 p src (NULL 0))
                           @ content src @ trailer 0 p src (NULL 0)\<rparr>,
        scratch := (case src of
                      Known dat mtime \<Rightarrow>
                        local_header_scratch localtime_utc (header_entry 0 p src (NULL 0))
                          (replicate 64 0)
                    | Streamed fp \<Rightarrow>
                        datadesc_scratch (final_entry 0 p src (NULL 0))
                          (local_header_scratch localtime_utc (header_entry 0 p src (NULL 0))
                             (replicate 64 0)))\<rparr>"

text \<open>
  The session \<^verbatim>\<open>picozip_end\<close> leaves when all its writes succeed: two writes for each
  entry of the ledger and one for the end record.
\<close>

definition finalized :: "harness picozip_file \<Rightarrow> harness picozip_file" where
  "finalized f =
     (let cd = central_directory_bytes localtime_utc (ledger f)
      in f\<lparr>offset := offset f + length cd + 22,
            userdata := (userdata f)
              \<lparr>num_write_success := num_write_success (userdata f) - (2 * num_entries f + 1),
               mem := mem (userdata f) @ cd @ eocd (num_entries f) (length cd) (offset f) 0\<rparr>,
            scratch := eocd_scratch (num_entries f) (length cd) (offset f) 0
                         (fold (central_header_scratch localtime_utc) (ledger f) (scratch f))\<rparr>)"

text \<open>
  The run of the examples: the one-byte file \<^verbatim>\<open>a\<close> from memory, then the one-byte file
  \<^verbatim>\<open>b\<close> from a stream, and the sessions the first and the second add leave when the
  pointer array holds two pointers.
\<close>

definition two_requests :: "add_request list" where
  "two_requests = [([0x61], src_a, NULL 0), ([0x62], src_s, NULL 0)]"

definition one_file :: "(u8 list) picozip_file" where
  "one_file =
     \<lparr>alloc_cb = sure_alloc, write_cb = sure_write, free_cb = sure_free, offset = 41,
      num_entries = 1,
      entries = \<lparr>data = [Entry (final_entry 0 [0x61] src_a (NULL 0)), Garbage],
                  cap = sizeof_entry_ptr, size_v = 0\<rparr>,
      userdata = on_disk localtime_utc (0, [0x61], src_a, NULL 0),
      scratch = local_header_scratch localtime_utc (header_entry 0 [0x61] src_a (NULL 0))
                  (replicate 64 0)\<rparr>"

definition two_files :: "(u8 list) picozip_file" where
  "two_files =
     \<lparr>alloc_cb = sure_alloc, write_cb = sure_write, free_cb = sure_free, offset = 98,
      num_entries = 2,
      entries = \<lparr>data = [Entry (final_entry 0 [0x61] src_a (NULL 0)),
                          Entry (final_entry 41 [0x62] src_s (NULL 0))],
                  cap = sizeof_entry_ptr, size_v = 0\<rparr>,
      userdata = on_disk localtime_utc (0, [0x61], src_a, NULL 0)
                 @ on_disk localtime_utc (41, [0x62], src_s, NULL 0),
      scratch = datadesc_scratch (final_entry 41 [0x62] src_s (NULL 0))
                  (local_header_scratch localtime_utc (header_entry 41 [0x62] src_s (NULL 0))
                     (local_header_scratch localtime_utc (header_entry 0 [0x61] src_a (NULL 0))
                        (replicate 64 0)))\<rparr>"

text \<open>
  The session \<^verbatim>\<open>picozip_end\<close> leaves over the callbacks that never fail: the central
  records and the end record have gone out, and the scratch buffer has served for each of
  them in turn.
\<close>

definition sure_finalized :: "(u8 list) picozip_file \<Rightarrow> (u8 list) picozip_file" where
  "sure_finalized f =
     (let cd = central_directory_bytes localtime_utc (ledger f)
      in f\<lparr>offset := offset f + length cd + 22,
            userdata := userdata f @ cd @ eocd (num_entries f) (length cd) (offset f) 0,
            scratch := eocd_scratch (num_entries f) (length cd) (offset f) 0
                         (fold (central_header_scratch localtime_utc) (ledger f) (scratch f))\<rparr>)"

section \<open>The checksum is the reflected CRC-32\<close>

lemma funpow8: "(f ^^ 8) x = f (f (f (f (f (f (f (f x)))))))" by (simp add: eval_nat_numeral)

lemma unat_byte_values: "map unat byte_values = [0..<256]"
  unfolding byte_values_def by code_simp

lemma crc_table_values: "map (crc_shift ^^ 8) byte_values = s_crc_table" 
  by (simp add: byte_values_def funpow8 crc_shift_def s_crc_table_def)

lemma byte_values_nth:
  assumes "n < 256" shows "byte_values ! n = of_nat n"
proof -
  have len: "length byte_values = 256"
    using arg_cong [OF unat_byte_values, of length] by simp
  have "unat (byte_values ! n) = map unat byte_values ! n"
    using assms len by simp
  also have "\<dots> = n"
    using assms by (simp add: unat_byte_values)
  finally have "of_nat (unat (byte_values ! n)) = (of_nat n :: u32)" by simp
  then show ?thesis by simp
qed

lemma s_crc_table_nth:
  assumes "n < 256" shows "s_crc_table ! n = (crc_shift ^^ 8) (of_nat n)"
proof -
  have len: "length byte_values = 256"
    using arg_cong [OF unat_byte_values, of length] by simp
  have "s_crc_table ! n = map (crc_shift ^^ 8) byte_values ! n"
    by (simp only: crc_table_values)
  also have "\<dots> = (crc_shift ^^ 8) (byte_values ! n)"
    using assms len by simp
  finally show ?thesis by (simp add: byte_values_nth assms)
qed

lemma crc_shift_xor: "crc_shift (x XOR y) = crc_shift x XOR crc_shift y"
  by (auto simp add: crc_shift_def bit_xor_iff xor.assoc xor.commute xor.left_commute)

lemma crc_shift_funpow_xor: "(crc_shift ^^ k) (x XOR y) = (crc_shift ^^ k) x XOR (crc_shift ^^ k) y"
  by (induction k arbitrary: x y) (simp_all add: crc_shift_xor)

lemma crc_shift_funpow_high:
  "take_bit k y = 0 \<Longrightarrow> (crc_shift ^^ k) y = drop_bit k y"
proof (induction k arbitrary: y)
  case 0
  then show ?case by simp
next
  case (Suc k)
  from Suc.prems have nb: "\<not> bit y 0"
    by (metis bit_take_bit_iff bit_0_eq zero_less_Suc bot_apply bot_bool_def)
  have tk: "take_bit k (drop_bit 1 y) = 0"
    using Suc.prems by (metis drop_bit_of_0 take_bit_drop_bit plus_1_eq_Suc add.commute)
  have "(crc_shift ^^ Suc k) y = (crc_shift ^^ k) (crc_shift y)"
    by (simp add: funpow_swap1)
  also have "\<dots> = (crc_shift ^^ k) (drop_bit 1 y)"
    using nb by (simp add: crc_shift_def)
  also have "\<dots> = drop_bit k (drop_bit 1 y)"
    using Suc.IH [OF tk] .
  finally show ?case by simp
qed

lemma crc_shift_funpow_split:
  "(crc_shift ^^ k) x = drop_bit k x XOR (crc_shift ^^ k) (take_bit k x)"
proof -
  have x: "x = push_bit k (drop_bit k x) XOR take_bit k x"
    by (rule bit_eqI) (auto simp add: bit_simps)
  have "(crc_shift ^^ k) x = (crc_shift ^^ k) (push_bit k (drop_bit k x)) XOR (crc_shift ^^ k) (take_bit k x)"
    by (subst x) (rule crc_shift_funpow_xor)
  also have "(crc_shift ^^ k) (push_bit k (drop_bit k x)) = drop_bit k (push_bit k (drop_bit k x))"
    by (rule crc_shift_funpow_high) (simp add: take_bit_push_bit)
  also have "\<dots> = drop_bit k x"
    by (rule bit_eqI) (auto simp add: bit_simps dest: bit_imp_le_length)
  finally show ?thesis .
qed

lemma crc32_step_reference: "crc32_step c b = reference_crc32_byte c b"
proof -
  define x where "x = c XOR ucast b"
  have idx: "unat (x AND 0xFF) < 256"
  proof -
    have "x AND 0xFF \<le> 0xFF" by (rule word_and_le1)
    then show ?thesis by (simp add: word_le_nat_alt)
  qed
  have m: "x AND 0xFF = take_bit 8 x"
    by (simp add: take_bit_eq_mask mask_eq_exp_minus_1)
  have d: "drop_bit 8 x = drop_bit 8 c"
  proof -
    have "drop_bit 8 (ucast b :: u32) = 0"
      by (rule bit_eqI) (auto simp add: bit_simps dest: bit_imp_le_length)
    then show ?thesis by (simp add: x_def)
  qed
  have "crc32_step c b = drop_bit 8 c XOR (crc_shift ^^ 8) (x AND 0xFF)"
    using idx by (simp add: crc32_step_def x_def [symmetric] s_crc_table_nth)
  also have "\<dots> = drop_bit 8 x XOR (crc_shift ^^ 8) (take_bit 8 x)"
    by (simp only: m d)
  also have "\<dots> = (crc_shift ^^ 8) x"
    by (rule crc_shift_funpow_split [symmetric])
  finally show ?thesis by (simp add: reference_crc32_byte_def x_def)
qed


lemma crc32_loop1_fold: "crc32_loop1 ptr c = fold (\<lambda>b c. crc32_step c b) ptr c"
  by (induction ptr arbitrary: c) simp_all

lemma crc32_loop4_loop1:
  "crc32_loop1 (fst (crc32_loop4 ptr c)) (snd (crc32_loop4 ptr c)) = crc32_loop1 ptr c"
  by (induction ptr c rule: crc32_loop4.induct) simp_all

lemma NOT_u32: "(c :: u32) XOR 0xFFFFFFFF = NOT c"
proof -
  have "(0xFFFFFFFF :: u32) = - 1" by simp
  then show ?thesis by (simp add: bit_eq_iff bit_simps) 
qed

lemma picozip__crc32_fold:
  "picozip__crc32 ptr crc = NOT (fold (\<lambda>b c. crc32_step c b) ptr (NOT crc))"
  by (simp add: picozip__crc32_def Let_def case_prod_beta crc32_loop4_loop1
      crc32_loop1_fold [symmetric] NOT_u32 del: crc32_loop4.simps)

lemma picozip__crc32_append:
  "picozip__crc32 (xs @ ys) crc = picozip__crc32 ys (picozip__crc32 xs crc)"
  by (simp add: picozip__crc32_fold)

lemma picozip__crc32_chunks:
  "fold picozip__crc32 chunks crc = picozip__crc32 (concat chunks) crc"
proof (induction chunks arbitrary: crc)
  case Nil
  show ?case by (simp add: picozip__crc32_fold)
next
  case (Cons x chunks)
  then show ?case by (simp add: picozip__crc32_append)
qed

lemma picozip__crc32_reference:
  "picozip__crc32 ptr PICOZIP__CRC_START = reference_crc32 ptr"
proof -
  have "(\<lambda>b c. crc32_step c b) = (\<lambda>b c. reference_crc32_byte c b)"
    by (simp add: crc32_step_reference)
  moreover have "NOT (0 :: u32) = 0xFFFFFFFF" by simp
  ultimately show ?thesis
    by (simp only: picozip__crc32_fold reference_crc32_def PICOZIP__CRC_START_def)
qed

text \<open>
  The reference is the usual one: the check value of the CRC catalogue, the checksum of
  the nine ASCII digits \<^verbatim>\<open>123456789\<close>, is \<^verbatim>\<open>0xCBF43926\<close>.
\<close>

lemma reference_crc32_check_value:
  "reference_crc32 [0x31, 0x32, 0x33, 0x34, 0x35, 0x36, 0x37, 0x38, 0x39] = 0xCBF43926"
  apply (simp only: reference_crc32_def fold_simps o_apply)
  apply (simp add: reference_crc32_byte_def funpow8 crc_shift_def)
  done

text \<open>
  C1. With the fresh seed \<^verbatim>\<open>PICOZIP__CRC_START\<close> the table-driven routine returns the
  reflected CRC-32 (polynomial 0xEDB88320) of the bytes, the checksum of no bytes is 0, and
  feeding the bytes chunk by chunk, each call seeded with the result of the call before,
  gives what one call on the whole sequence gives.
\<close>

theorem picozip__crc32_is_crc32:
  "picozip__crc32 b PICOZIP__CRC_START = reference_crc32 b
   \<and> picozip__crc32 [] PICOZIP__CRC_START = 0
   \<and> fold picozip__crc32 chunks PICOZIP__CRC_START
       = picozip__crc32 (concat chunks) PICOZIP__CRC_START"
proof -
  have "picozip__crc32 [] PICOZIP__CRC_START = 0"
    by (simp add: picozip__crc32_fold PICOZIP__CRC_START_def)
  then show ?thesis
    by (simp add: picozip__crc32_reference picozip__crc32_chunks)
qed


section \<open>Bytes written and read back\<close>

lemma length_WRITE_LE16 [simp]: "length (PICOZIP__WRITE_LE16 A off V) = length A"
  by (simp add: PICOZIP__WRITE_LE16_def)

lemma length_WRITE_LE32 [simp]: "length (PICOZIP__WRITE_LE32 A off V) = length A"
  by (simp add: PICOZIP__WRITE_LE32_def)

lemma take_Suc_Suc_nth:
  "Suc off < length xs \<Longrightarrow> take (Suc (Suc off)) xs = take off xs @ [xs ! off, xs ! Suc off]"
  by (simp add: take_Suc_conv_app_nth)

lemma take_WRITE_LE16:
  assumes "m = off + 2" and "m \<le> length A"
  shows "take m (PICOZIP__WRITE_LE16 A off V) = take off A @ le16 V"
proof -
  let ?xs = "A[off := of_nat V, Suc off := of_nat (drop_bit 8 V)]"
  have "take (Suc (Suc off)) ?xs = take off ?xs @ [?xs ! off, ?xs ! Suc off]"
    using assms by (intro take_Suc_Suc_nth) simp
  then show ?thesis
    using assms by (simp add: PICOZIP__WRITE_LE16_def le16_def)
qed

lemma take_WRITE_LE32:
  assumes "m = off + 4" and "m \<le> length A"
  shows "take m (PICOZIP__WRITE_LE32 A off V) = take off A @ le32 V"
proof -
  let ?xs = "A[off := of_nat V, Suc off := of_nat (drop_bit 8 V),
               Suc (Suc off) := of_nat (drop_bit 16 V),
               Suc (Suc (Suc off)) := of_nat (drop_bit 24 V)]"
  have "take (Suc (Suc (Suc (Suc off)))) ?xs
        = take (Suc (Suc off)) ?xs @ [?xs ! Suc (Suc off), ?xs ! Suc (Suc (Suc off))]"
    using assms by (intro take_Suc_Suc_nth) simp
  moreover have "take (Suc (Suc off)) ?xs = take off ?xs @ [?xs ! off, ?xs ! Suc off]"
    using assms by (intro take_Suc_Suc_nth) simp
  ultimately show ?thesis
    using assms by (simp add: PICOZIP__WRITE_LE32_def le32_def eval_nat_numeral)
qed

lemma length_le16 [simp]: "length (le16 V) = 2"
  by (simp add: le16_def)

lemma length_le32 [simp]: "length (le32 V) = 4"
  by (simp add: le32_def)

lemma u16_of_bytes:
  "(ucast (of_nat V :: u8) :: u16) OR push_bit 8 (ucast (of_nat (drop_bit 8 V) :: u8)) = of_nat V"
  by (rule bit_eqI) (auto simp add: bit_simps)

lemma u32_of_bytes:
  "(ucast (of_nat V :: u8) :: u32) OR push_bit 8 (ucast (of_nat (drop_bit 8 V) :: u8))
   OR push_bit 16 (ucast (of_nat (drop_bit 16 V) :: u8))
   OR push_bit 24 (ucast (of_nat (drop_bit 24 V) :: u8)) = of_nat V"
proof (rule bit_eqI)
  fix n
  assume "possible_bit TYPE(u32) n"
  then have n: "n < 32" by simp
  consider "n < 8" | "8 \<le> n" "n < 16" | "16 \<le> n" "n < 24" | "24 \<le> n"
    by linarith
  then show "bit ((ucast (of_nat V :: u8) :: u32) OR push_bit 8 (ucast (of_nat (drop_bit 8 V) :: u8))
       OR push_bit 16 (ucast (of_nat (drop_bit 16 V) :: u8))
       OR push_bit 24 (ucast (of_nat (drop_bit 24 V) :: u8))) n = bit (of_nat V :: u32) n"
    using n by cases (auto simp add: bit_simps)
qed

lemma READ_LE16_le16:
  "length xs = off \<Longrightarrow> READ_LE16 (xs @ le16 V @ ys) off = of_nat V"
  using u16_of_bytes [of V] by (simp add: READ_LE16_def le16_def nth_append)

lemma READ_LE32_le32:
  "length xs = off \<Longrightarrow> READ_LE32 (xs @ le32 V @ ys) off = of_nat V"
  using u32_of_bytes [of V] by (simp add: READ_LE32_def le32_def nth_append)


section \<open>The records in the scratch buffer\<close>

lemma local_header_scratch_take:
  assumes "30 \<le> length s"
  shows "take 30 (local_header_scratch localtime e s) =
         le32 PICOZIP__LOCAL_MAGIC @ le16 (unat (version_extract e)) @ le16 (unat (flags e))
         @ le16 (unat (comp_method e))
         @ le16 (unat (snd (picozip__time_to_dostime localtime (mod_time e))))
         @ le16 (unat (fst (picozip__time_to_dostime localtime (mod_time e))))
         @ le32 (unat (crc32 e)) @ le32 (unat (comp_size e)) @ le32 (unat (uncomp_size e))
         @ le16 (unat (filename_len e)) @ le16 (unat (extra_field_len e))"
  using assms
  by (simp add: local_header_scratch_def Let_def case_prod_beta take_WRITE_LE16 take_WRITE_LE32)

lemma length_local_header_scratch [simp]:
  "length (local_header_scratch localtime e s) = length s"
  by (simp add: local_header_scratch_def Let_def case_prod_beta)

lemma central_header_scratch_take:
  assumes "46 \<le> length s"
  shows "take 46 (central_header_scratch localtime e s) =
         le32 PICOZIP__CENTRAL_MAGIC @ le16 (unat (version_made e))
         @ le16 (unat (version_extract e)) @ le16 (unat (flags e))
         @ le16 (unat (comp_method e))
         @ le16 (unat (snd (picozip__time_to_dostime localtime (mod_time e))))
         @ le16 (unat (fst (picozip__time_to_dostime localtime (mod_time e))))
         @ le32 (unat (crc32 e)) @ le32 (unat (comp_size e)) @ le32 (unat (uncomp_size e))
         @ le16 (unat (filename_len e)) @ le16 (unat (extra_field_len e))
         @ le16 (unat (comment_len e)) @ le16 0 @ le16 (unat (internal_attr e))
         @ le32 (unat (external_attr e)) @ le32 (unat (header_offset e))"
  using assms
  by (simp add: central_header_scratch_def Let_def case_prod_beta take_WRITE_LE16 take_WRITE_LE32)

lemma length_central_header_scratch [simp]:
  "length (central_header_scratch localtime e s) = length s"
  by (simp add: central_header_scratch_def Let_def case_prod_beta)

lemma datadesc_scratch_take:
  assumes "16 \<le> length s"
  shows "take 16 (datadesc_scratch e s) =
         le32 PICOZIP__DATADESC_MAGIC @ le32 (unat (crc32 e)) @ le32 (unat (comp_size e))
         @ le32 (unat (uncomp_size e))"
  using assms
  by (simp add: datadesc_scratch_def Let_def take_WRITE_LE32)

lemma length_datadesc_scratch [simp]: "length (datadesc_scratch e s) = length s"
  by (simp add: datadesc_scratch_def Let_def)

lemma eocd_scratch_take:
  assumes "22 \<le> length s"
  shows "take 22 (eocd_scratch n cd_size cd_offset clen s) =
         le32 PICOZIP__EOCD_MAGIC @ le16 0 @ le16 0 @ le16 n @ le16 n @ le32 cd_size
         @ le32 cd_offset @ le16 clen"
  using assms
  by (simp add: eocd_scratch_def Let_def take_WRITE_LE16 take_WRITE_LE32)

lemma length_eocd_scratch [simp]: "length (eocd_scratch n cd_size cd_offset clen s) = length s"
  by (simp add: eocd_scratch_def Let_def)

text \<open>What is flushed does not depend on what the scratch buffer held before.\<close>

lemma take_local_header_scratch:
  "30 \<le> length s \<Longrightarrow> take 30 (local_header_scratch localtime e s) = local_header localtime e"
  by (simp add: local_header_def PICOZIP__LOCAL_HEADER_SIZE_def PICOZIP__SCRATCH_BUFFER_SIZE_def
      local_header_scratch_take)

lemma take_central_header_scratch:
  "46 \<le> length s \<Longrightarrow> take 46 (central_header_scratch localtime e s) = central_header localtime e"
  by (simp add: central_header_def PICOZIP__CD_HEADER_SIZE_def PICOZIP__SCRATCH_BUFFER_SIZE_def
      central_header_scratch_take)

lemma take_datadesc_scratch:
  "16 \<le> length s \<Longrightarrow> take 16 (datadesc_scratch e s) = data_descriptor e"
  by (simp add: data_descriptor_def PICOZIP__DATADESC_SIZE_def PICOZIP__SCRATCH_BUFFER_SIZE_def
      datadesc_scratch_take)

lemma take_eocd_scratch:
  "22 \<le> length s \<Longrightarrow> take 22 (eocd_scratch n cd_size cd_offset clen s) = eocd n cd_size cd_offset clen"
  by (simp add: eocd_def PICOZIP__EOCD_SIZE_def PICOZIP__SCRATCH_BUFFER_SIZE_def
      eocd_scratch_take)

lemma local_header_eq:
  "local_header localtime e =
         le32 PICOZIP__LOCAL_MAGIC @ le16 (unat (version_extract e)) @ le16 (unat (flags e))
         @ le16 (unat (comp_method e))
         @ le16 (unat (snd (picozip__time_to_dostime localtime (mod_time e))))
         @ le16 (unat (fst (picozip__time_to_dostime localtime (mod_time e))))
         @ le32 (unat (crc32 e)) @ le32 (unat (comp_size e)) @ le32 (unat (uncomp_size e))
         @ le16 (unat (filename_len e)) @ le16 (unat (extra_field_len e))"
  by (simp add: local_header_def PICOZIP__LOCAL_HEADER_SIZE_def PICOZIP__SCRATCH_BUFFER_SIZE_def
      local_header_scratch_take)

lemma central_header_eq:
  "central_header localtime e =
         le32 PICOZIP__CENTRAL_MAGIC @ le16 (unat (version_made e))
         @ le16 (unat (version_extract e)) @ le16 (unat (flags e))
         @ le16 (unat (comp_method e))
         @ le16 (unat (snd (picozip__time_to_dostime localtime (mod_time e))))
         @ le16 (unat (fst (picozip__time_to_dostime localtime (mod_time e))))
         @ le32 (unat (crc32 e)) @ le32 (unat (comp_size e)) @ le32 (unat (uncomp_size e))
         @ le16 (unat (filename_len e)) @ le16 (unat (extra_field_len e))
         @ le16 (unat (comment_len e)) @ le16 0 @ le16 (unat (internal_attr e))
         @ le32 (unat (external_attr e)) @ le32 (unat (header_offset e))"
  by (simp add: central_header_def PICOZIP__CD_HEADER_SIZE_def PICOZIP__SCRATCH_BUFFER_SIZE_def
      central_header_scratch_take)

lemma data_descriptor_eq:
  "data_descriptor e =
         le32 PICOZIP__DATADESC_MAGIC @ le32 (unat (crc32 e)) @ le32 (unat (comp_size e))
         @ le32 (unat (uncomp_size e))"
  by (simp add: data_descriptor_def PICOZIP__DATADESC_SIZE_def PICOZIP__SCRATCH_BUFFER_SIZE_def
      datadesc_scratch_take)

lemma eocd_eq:
  "eocd n cd_size cd_offset clen =
         le32 PICOZIP__EOCD_MAGIC @ le16 0 @ le16 0 @ le16 n @ le16 n @ le32 cd_size
         @ le32 cd_offset @ le16 clen"
  by (simp add: eocd_def PICOZIP__EOCD_SIZE_def PICOZIP__SCRATCH_BUFFER_SIZE_def
      eocd_scratch_take)

lemma length_local_header [simp]: "length (local_header localtime e) = 30"
  by (simp add: local_header_eq)

lemma length_central_header [simp]: "length (central_header localtime e) = 46"
  by (simp add: central_header_eq)

lemma length_data_descriptor [simp]: "length (data_descriptor e) = 16"
  by (simp add: data_descriptor_eq)

lemma length_eocd [simp]: "length (eocd n cd_size cd_offset clen) = 22"
  by (simp add: eocd_eq)


section \<open>The steps of an operation\<close>

lemma observes_alloc:
  "observes f out \<Longrightarrow> alloc_cb f u n = (b, u') \<Longrightarrow> out u' = out u"
  unfolding observes_def by (metis snd_conv)

lemma FLUSH_True:
  assumes "PICOZIP__FLUSH f src n = (True, f')"
  shows "\<exists>u. f' = f\<lparr>userdata := u, offset := offset f + n\<rparr>
             \<and> (observes f out \<longrightarrow> n \<le> length src \<longrightarrow> out u = out (userdata f) @ take n src)"
proof -
  obtain k u where w: "write_cb f (userdata f) (take n src) = (k, u)"
    by (cases "write_cb f (userdata f) (take n src)")
  with assms(1) have k: "k = n" and f': "f' = f\<lparr>userdata := u, offset := offset f + n\<rparr>"
    by (auto simp add: PICOZIP__FLUSH_def split: if_splits)
  have "out u = out (userdata f) @ take n src" if "observes f out" "n \<le> length src"
  proof -
    from w k that(2) have "write_cb f (userdata f) (take n src) = (length (take n src), u)"
      by simp
    with that(1) show ?thesis unfolding observes_def by blast
  qed
  with f' show ?thesis by blast
qed

lemma FLUSH_obs:
  assumes "PICOZIP__FLUSH f src n = (True, f')" and "observes f out" and "n \<le> length src"
  shows "\<exists>u. f' = f\<lparr>userdata := u, offset := offset f + n\<rparr>
             \<and> out u = out (userdata f) @ take n src"
  using FLUSH_True [OF assms(1), of out] assms(2,3) by auto

lemma FLUSH_frame:
  assumes "PICOZIP__FLUSH f src n = (ok, f')"
  shows "\<exists>u. f' = f\<lparr>userdata := u, offset := (if ok then offset f + n else offset f)\<rparr>"
  using assms
  by (auto simp add: PICOZIP__FLUSH_def split: prod.splits if_splits)

lemma vec_alloc_out:
  assumes "picozip__vec_alloc v sz (alloc_cb f) u = (r, u')" and "observes f out"
  shows "out u' = out u"
proof (cases "cap v < size_v v + sz")
  case True
  obtain b u2 where al: "alloc_cb f u (size_v v + sz) = (b, u2)"
    by (cases "alloc_cb f u (size_v v + sz)")
  with True assms(1) have "u' = u2"
    by (auto simp add: picozip__vec_alloc_def Let_def split: if_splits)
  with observes_alloc [OF assms(2) al] show ?thesis by simp
next
  case False
  with assms(1) show ?thesis by (simp add: picozip__vec_alloc_def)
qed

lemma vec_alloc_room:
  assumes "size_v v + sz \<le> cap v"
  shows "picozip__vec_alloc v sz al u = (Some v, u)"
  using assms by (simp add: picozip__vec_alloc_def)

lemma alloc_entry_Some:
  assumes "picozip__alloc_entry f m = Inr (Some i, f')"
  shows "\<exists>v u. f' = f\<lparr>entries := v, userdata := u, num_entries := Suc (num_entries f)\<rparr>
           \<and> i = num_entries f \<and> i < length (data v) \<and> data v ! i = Entry (fresh_entry m)
           \<and> (observes f out \<longrightarrow> out u = out (userdata f))
           \<and> (size_v (entries f) + sizeof_entry_ptr \<le> cap (entries f) \<longrightarrow>
                v = (entries f)\<lparr>data := (data (entries f))[i := Entry (fresh_entry m)]\<rparr>)
           \<and> (\<forall>j < num_entries f. data v ! j = data (entries f) ! j)"
proof -
  obtain v u where va: "picozip__vec_alloc (entries f) sizeof_entry_ptr (alloc_cb f) (userdata f)
                        = (Some v, u)"
    using assms
    by (cases "picozip__vec_alloc (entries f) sizeof_entry_ptr (alloc_cb f) (userdata f)")
       (auto simp add: picozip__alloc_entry_def split: option.splits)
  obtain b u2 where al: "alloc_cb f u (sizeof_picozip__entry + m) = (b, u2)"
    by (cases "alloc_cb f u (sizeof_picozip__entry + m)")
  from assms va al have b: "b" and lt: "num_entries f < length (data v)"
    and f': "f' = f\<lparr>entries := v\<lparr>data := (data v)[num_entries f := Entry (fresh_entry m)]\<rparr>,
                     userdata := u2, num_entries := Suc (num_entries f)\<rparr>"
    and i: "i = num_entries f"
    by (auto simp add: picozip__alloc_entry_def Let_def split: if_splits)
  have o: "out u2 = out (userdata f)" if "observes f out"
    using vec_alloc_out [OF va that] observes_alloc [OF that al] by simp
  have r: "v = entries f" if "size_v (entries f) + sizeof_entry_ptr \<le> cap (entries f)"
    using va vec_alloc_room [OF that, of "alloc_cb f" "userdata f"] by simp
  have k: "data v ! j = data (entries f) ! j" if j: "j < num_entries f" for j
  proof (cases "size_v (entries f) + sizeof_entry_ptr \<le> cap (entries f)")
    case True
    with r show ?thesis by simp
  next
    case False
    let ?k = "size_v (entries f) div sizeof_entry_ptr"
    from False va have v: "data v = take ?k (data (entries f))
          @ replicate ((size_v (entries f) + sizeof_entry_ptr) div sizeof_entry_ptr - ?k) Garbage"
      by (auto simp add: picozip__vec_alloc_def Let_def split: prod.splits if_splits)
    have "(size_v (entries f) + sizeof_entry_ptr) div sizeof_entry_ptr - ?k = 1"
      by (simp add: sizeof_entry_ptr_def)
    with v lt have "num_entries f < min ?k (length (data (entries f))) + 1" by simp
    with j have "j < ?k" "j < length (data (entries f))" by simp_all
    then show ?thesis by (simp add: v nth_append)
  qed
  show ?thesis
    using f' i lt o r k
    by (intro exI [of _ "v\<lparr>data := (data v)[num_entries f := Entry (fresh_entry m)]\<rparr>"]
        exI [of _ u2]) auto
qed

lemma alloc_entry_None:
  assumes "picozip__alloc_entry f m = Inr (None, f')"
  shows "\<exists>v u. f' = f\<lparr>entries := v, userdata := u\<rparr>
           \<and> (observes f out \<longrightarrow> out u = out (userdata f))
           \<and> (size_v (entries f) + sizeof_entry_ptr \<le> cap (entries f) \<longrightarrow> v = entries f)"
proof -
  obtain r u where va: "picozip__vec_alloc (entries f) sizeof_entry_ptr (alloc_cb f) (userdata f)
                        = (r, u)"
    by (cases "picozip__vec_alloc (entries f) sizeof_entry_ptr (alloc_cb f) (userdata f)")
  obtain b u2 where al: "alloc_cb f u (sizeof_picozip__entry + m) = (b, u2)"
    by (cases "alloc_cb f u (sizeof_picozip__entry + m)")
  have 1: "out u = out (userdata f)" if "observes f out"
    using va that by (rule vec_alloc_out)
  have 2: "out u2 = out u" if "observes f out"
    using that al by (rule observes_alloc)
  have 3: "r = Some (entries f)" if "size_v (entries f) + sizeof_entry_ptr \<le> cap (entries f)"
    using va vec_alloc_room [OF that, of "alloc_cb f" "userdata f"] by simp
  from assms va al have f': "(r = None \<and> f' = f\<lparr>userdata := u\<rparr>)
        \<or> (\<exists>v. r = Some v \<and> \<not> b \<and> f' = f\<lparr>entries := v, userdata := u2\<rparr>)"
    by (auto simp add: picozip__alloc_entry_def Let_def split: option.splits if_splits)
  then show ?thesis
  proof
    assume a: "r = None \<and> f' = f\<lparr>userdata := u\<rparr>"
    then show ?thesis using 1 3 by (intro exI [of _ "entries f"] exI [of _ u]) auto
  next
    assume "\<exists>v. r = Some v \<and> \<not> b \<and> f' = f\<lparr>entries := v, userdata := u2\<rparr>"
    then obtain v where a: "r = Some v" "f' = f\<lparr>entries := v, userdata := u2\<rparr>" by blast
    then show ?thesis using 1 2 3 by (intro exI [of _ v] exI [of _ u2]) auto
  qed
qed

lemma write_local_entry_OK:
  assumes "picozip__write_local_entry localtime f e = (PICOZIP_OK, f')"
  shows "\<exists>u. f' = f\<lparr>userdata := u,
                     offset := offset f + 30 + unat (filename_len e) + unat (extra_field_len e),
                     scratch := local_header_scratch localtime e (scratch f)\<rparr>
             \<and> (observes f out \<longrightarrow> 30 \<le> length (scratch f) \<longrightarrow>
                  unat (filename_len e) + unat (extra_field_len e) \<le> length (metadata e) \<longrightarrow>
                  out u = out (userdata f) @ local_record localtime e)"
proof -
  let ?f0 = "f\<lparr>scratch := local_header_scratch localtime e (scratch f)\<rparr>"
  let ?n = "unat (filename_len e) + unat (extra_field_len e)"
  obtain ok1 f1 where 1: "PICOZIP__FLUSH ?f0 (scratch ?f0) 30 = (ok1, f1)"
    by (cases "PICOZIP__FLUSH ?f0 (scratch ?f0) 30")
  obtain ok2 f2 where 2: "PICOZIP__FLUSH f1 (metadata e) ?n = (ok2, f2)"
    by (cases "PICOZIP__FLUSH f1 (metadata e) ?n")
  from assms(1) 1 2 have ok1: "ok1" and ok2: "ok2" and f2: "f' = f2"
    by (auto simp add: picozip__write_local_entry_def Let_def PICOZIP__LOCAL_HEADER_SIZE_def
        split: if_splits)
  from 1 ok1 have 1: "PICOZIP__FLUSH ?f0 (scratch ?f0) 30 = (True, f1)" by simp
  from FLUSH_True [OF 1, of out] obtain u1
    where a: "f1 = ?f0\<lparr>userdata := u1, offset := offset ?f0 + 30\<rparr>"
      and b: "observes ?f0 out \<longrightarrow> 30 \<le> length (scratch ?f0)
              \<longrightarrow> out u1 = out (userdata ?f0) @ take 30 (scratch ?f0)"
    by auto
  from 2 ok2 have 2: "PICOZIP__FLUSH f1 (metadata e) ?n = (True, f2)" by simp
  from FLUSH_True [OF 2, of out] obtain u2
    where c: "f2 = f1\<lparr>userdata := u2, offset := offset f1 + ?n\<rparr>"
      and d: "observes f1 out \<longrightarrow> ?n \<le> length (metadata e)
              \<longrightarrow> out u2 = out (userdata f1) @ take ?n (metadata e)"
    by auto
  have "out u2 = out (userdata f) @ local_record localtime e"
    if o: "observes f out" and s: "30 \<le> length (scratch f)" and m: "?n \<le> length (metadata e)"
  proof -
    have o0: "observes ?f0 out" using o by (simp add: observes_def)
    have o1: "observes f1 out" using o by (simp add: a observes_def)
    have h: "take 30 (scratch ?f0) = local_header localtime e"
      using s by (simp add: take_local_header_scratch)
    from b o0 s have "out u1 = out (userdata f) @ take 30 (scratch ?f0)"
      by simp
    then have "out u1 = out (userdata f) @ local_header localtime e"
      by (simp only: h)
    moreover from d o1 m have "out u2 = out (userdata f1) @ take ?n (metadata e)" by simp
    ultimately show ?thesis by (simp add: a local_record_def)
  qed
  moreover have "f' = f\<lparr>userdata := u2, offset := offset f + 30 + ?n,
                 scratch := local_header_scratch localtime e (scratch f)\<rparr>"
    by (simp add: f2 c a)
  ultimately show ?thesis by (intro exI [of _ u2]) simp
qed

lemma write_local_entry_frame:
  assumes "picozip__write_local_entry localtime f e = (err, f')"
  shows "num_entries f' = num_entries f" and "entries f' = entries f"
    and "alloc_cb f' = alloc_cb f" and "write_cb f' = write_cb f" and "free_cb f' = free_cb f"
    and "err = PICOZIP_OK \<or> err = PICOZIP_EIO"
  using assms
  by (auto simp add: picozip__write_local_entry_def PICOZIP__FLUSH_def Let_def
      split: prod.splits if_splits)


section \<open>The entry an add function builds\<close>

lemma take_update_last:
  "m = n + 1 \<Longrightarrow> m \<le> length xs \<Longrightarrow> take m (xs[n := v]) = take n xs @ [v]"
  by (simp add: take_Suc_conv_app_nth)

lemma buf_valid:
  "\<not> (buf_len b \<noteq> 0 \<and> is_null b) \<Longrightarrow> length (buf_bytes b) = buf_len b"
  by (cases b) simp_all

lemma fill_metadata_eq:
  assumes "length m = length p + buf_len c + 9" and "length (buf_bytes c) = buf_len c"
  shows "fill_metadata m p mtime c = p @ timestamp_field mtime @ buf_bytes c"
proof -
  let ?n = "length p"
  let ?m1 = "memcpy m 0 p ?n"
  let ?m2 = "PICOZIP__WRITE_LE16 ?m1 ?n PICOZIP__TIMESTAMP_MAGIC"
  let ?m3 = "PICOZIP__WRITE_LE16 ?m2 (?n + 2) PICOZIP__LOCAL_TIMESTAMP_SIZE"
  let ?m4 = "?m3[?n + 4 := 1]"
  let ?m5 = "PICOZIP__WRITE_LE32 ?m4 (?n + 5) (unat (of_int mtime :: u32))"
  have l1: "length ?m1 = ?n + buf_len c + 9" using assms(1) by (simp add: memcpy_def)
  have t1: "take ?n ?m1 = p" by (simp add: memcpy_def)
  have t2: "take (?n + 2) ?m2 = p @ le16 PICOZIP__TIMESTAMP_MAGIC"
    using l1 t1 by (simp add: take_WRITE_LE16)
  have t3: "take (?n + 4) ?m3 = take (?n + 2) ?m2 @ le16 PICOZIP__LOCAL_TIMESTAMP_SIZE"
    using l1 by (simp add: take_WRITE_LE16)
  have t4: "take (?n + 5) ?m4 = take (?n + 4) ?m3 @ [1]"
    using l1 by (simp add: take_update_last)
  have t5: "take (?n + 9) ?m5 = take (?n + 5) ?m4 @ le32 (unat (of_int mtime :: u32))"
    using l1 by (simp add: take_WRITE_LE32)
  have l5: "length ?m5 = ?n + buf_len c + 9" using l1 by simp
  have k: "?n + PICOZIP__ATTR_SIZE + PICOZIP__LOCAL_TIMESTAMP_SIZE = ?n + 9"
    by (simp add: PICOZIP__ATTR_SIZE_def PICOZIP__LOCAL_TIMESTAMP_SIZE_def)
  have "fill_metadata m p mtime c
        = memcpy ?m5 (?n + PICOZIP__ATTR_SIZE + PICOZIP__LOCAL_TIMESTAMP_SIZE)
            (buf_bytes c) (buf_len c)"
    by (simp only: fill_metadata_def Let_def)
  also have "\<dots> = memcpy ?m5 (?n + 9) (buf_bytes c) (buf_len c)"
    by (simp only: k)
  also have "\<dots> = take (?n + 9) ?m5 @ take (buf_len c) (buf_bytes c)
                   @ drop (?n + 9 + buf_len c) ?m5"
    by (simp only: memcpy_def)
  also have "take (buf_len c) (buf_bytes c) = buf_bytes c"
    using assms(2) by simp
  also have "drop (?n + 9 + buf_len c) ?m5 = []"
    using l5 by simp
  finally show ?thesis
    by (simp only: t5 t4 t3 t2 timestamp_field_def append_assoc append_Nil2)
qed

lemma length_timestamp_field [simp]: "length (timestamp_field mtime) = 9"
  by (simp add: timestamp_field_def)

lemma mem_entry_fields:
  "version_made (mem_entry n off p dat mtime c) = 0"
  "version_extract (mem_entry n off p dat mtime c) = 0x14"
  "flags (mem_entry n off p dat mtime c) = 0"
  "comp_method (mem_entry n off p dat mtime c) = 0"
  "internal_attr (mem_entry n off p dat mtime c) = 0"
  "external_attr (mem_entry n off p dat mtime c) = 0"
  "header_offset (mem_entry n off p dat mtime c) = of_nat off"
  "mod_time (mem_entry n off p dat mtime c) = mtime"
  "comp_size (mem_entry n off p dat mtime c) = of_nat (buf_len dat)"
  "uncomp_size (mem_entry n off p dat mtime c) = of_nat (buf_len dat)"
  "filename_len (mem_entry n off p dat mtime c) = of_nat (length p)"
  "extra_field_len (mem_entry n off p dat mtime c) = 9"
  "comment_len (mem_entry n off p dat mtime c) = of_nat (buf_len c)"
  "crc32 (mem_entry n off p dat mtime c) = NOT (picozip__crc32 (buf_bytes dat) PICOZIP__CRC_START)"
  by (simp_all add: mem_entry_def fresh_entry_def Let_def PICOZIP__MIN_VERSION_def
      PICOZIP__ATTR_SIZE_def PICOZIP__LOCAL_TIMESTAMP_SIZE_def NOT_u32)

lemma mem_entry_metadata:
  assumes "n = length p + buf_len c + 9" and "length (buf_bytes c) = buf_len c"
  shows "metadata (mem_entry n off p dat mtime c) = p @ timestamp_field mtime @ buf_bytes c"
  using assms by (simp add: mem_entry_def fresh_entry_def Let_def fill_metadata_eq)

lemma unat_of_nat_u16_le: "unat (of_nat n :: u16) \<le> n"
  by (simp add: unat_of_nat)

lemma mem_entry_bound:
  assumes "length (buf_bytes c) = buf_len c"
  shows "unat (filename_len (mem_entry (length p + buf_len c + 9) off p dat mtime c))
         + unat (extra_field_len (mem_entry (length p + buf_len c + 9) off p dat mtime c))
         + unat (comment_len (mem_entry (length p + buf_len c + 9) off p dat mtime c))
         \<le> length (metadata (mem_entry (length p + buf_len c + 9) off p dat mtime c))"
  using unat_of_nat_u16_le [of "length p"] unat_of_nat_u16_le [of "buf_len c"] assms
  by (simp add: mem_entry_metadata mem_entry_fields)

lemma mem_ex_OK:
  assumes ok: "picozip_new_entry_mem_ex localtime (Some f) (Some p) dat mtime c
               = Inr (PICOZIP_OK, Some f')"
  defines "e \<equiv> mem_entry (length p + buf_len c + 9) (offset f) p dat mtime c"
  shows "\<exists>v u. f' = f\<lparr>entries := v, userdata := u, num_entries := Suc (num_entries f),
                       offset := offset f + 30 + unat (filename_len e) + 9 + buf_len dat,
                       scratch := local_header_scratch localtime e (scratch f)\<rparr>
           \<and> num_entries f < length (data v) \<and> data v ! num_entries f = Entry e
           \<and> (observes f out \<longrightarrow> 30 \<le> length (scratch f) \<longrightarrow>
                out u = out (userdata f) @ local_record localtime e @ buf_bytes dat)
           \<and> (size_v (entries f) + sizeof_entry_ptr \<le> cap (entries f) \<longrightarrow>
                v = (entries f)\<lparr>data := (data (entries f))[num_entries f := Entry e]\<rparr>)
           \<and> (\<forall>j < num_entries f. data v ! j = data (entries f) ! j)"
    and "length (buf_bytes dat) = buf_len dat" and "length (buf_bytes c) = buf_len c"
proof -
  let ?m = "length p + buf_len c + PICOZIP__ATTR_SIZE + PICOZIP__LOCAL_TIMESTAMP_SIZE"
  have m: "?m = length p + buf_len c + 9"
    by (simp add: PICOZIP__ATTR_SIZE_def PICOZIP__LOCAL_TIMESTAMP_SIZE_def)
  from ok have valid: "\<not> (buf_len dat \<noteq> 0 \<and> is_null dat)" "\<not> (buf_len c \<noteq> 0 \<and> is_null c)"
    by (auto simp add: picozip_new_entry_mem_ex_def split: if_splits)
  then show vd: "length (buf_bytes dat) = buf_len dat" and vc: "length (buf_bytes c) = buf_len c"
    by (simp_all add: buf_valid)
  obtain i fa where al: "picozip__alloc_entry f ?m = Inr (Some i, fa)"
    using ok valid
    by (cases "picozip__alloc_entry f ?m")
       (auto simp add: picozip_new_entry_mem_ex_def Let_def split: option.splits)
  from alloc_entry_Some [OF al, of out] obtain v0 u0
    where fa: "fa = f\<lparr>entries := v0, userdata := u0, num_entries := Suc (num_entries f)\<rparr>"
      and i: "i = num_entries f" and lt: "i < length (data v0)"
      and out0: "observes f out \<longrightarrow> out u0 = out (userdata f)"
      and room: "size_v (entries f) + sizeof_entry_ptr \<le> cap (entries f) \<longrightarrow>
                v0 = (entries f)\<lparr>data := (data (entries f))[i := Entry (fresh_entry ?m)]\<rparr>"
      and keep: "\<forall>j < num_entries f. data v0 ! j = data (entries f) ! j"
    by auto
  have e: "mem_entry ?m (offset fa) p dat mtime c = e"
    by (simp add: e_def m fa)
  let ?fb = "store_entry fa i e"
  obtain err fc where wl: "picozip__write_local_entry localtime ?fb e = (err, fc)"
    by (cases "picozip__write_local_entry localtime ?fb e")
  obtain ok2 fd where fl: "PICOZIP__FLUSH fc (buf_bytes dat) (buf_len dat) = (ok2, fd)"
    by (cases "PICOZIP__FLUSH fc (buf_bytes dat) (buf_len dat)")
  from ok valid al wl fl e have err: "err = PICOZIP_OK" and ok2: "ok2" and fd: "f' = fd"
    by (auto simp add: picozip_new_entry_mem_ex_def Let_def rollback_def
        split: if_splits sum.splits)
  have fb: "?fb = f\<lparr>entries := v0\<lparr>data := (data v0)[i := Entry e]\<rparr>, userdata := u0,
                     num_entries := Suc (num_entries f)\<rparr>"
    by (simp add: store_entry_def fa)
  have efl: "unat (extra_field_len e) = 9" by (simp add: e_def mem_entry_fields)
  have bound: "unat (filename_len e) + unat (extra_field_len e) \<le> length (metadata e)"
    using mem_entry_bound [OF vc, of p "offset f" dat mtime] by (simp add: e_def)
  from wl err have wl: "picozip__write_local_entry localtime ?fb e = (PICOZIP_OK, fc)" by simp
  from write_local_entry_OK [OF wl, of out] bound obtain u1
    where fc: "fc = ?fb\<lparr>userdata := u1,
                     offset := offset ?fb + 30 + unat (filename_len e) + unat (extra_field_len e),
                     scratch := local_header_scratch localtime e (scratch ?fb)\<rparr>"
      and out1: "observes ?fb out \<longrightarrow> 30 \<le> length (scratch ?fb)
                 \<longrightarrow> out u1 = out (userdata ?fb) @ local_record localtime e"
    by auto
  from fl ok2 have fl: "PICOZIP__FLUSH fc (buf_bytes dat) (buf_len dat) = (True, fd)" by simp
  from FLUSH_True [OF fl, of out] vd obtain u2
    where fd': "fd = fc\<lparr>userdata := u2, offset := offset fc + buf_len dat\<rparr>"
      and out2: "observes fc out \<longrightarrow> out u2 = out (userdata fc) @ take (buf_len dat) (buf_bytes dat)"
    by auto
  have 1: "f' = f\<lparr>entries := v0\<lparr>data := (data v0)[i := Entry e]\<rparr>, userdata := u2,
                  num_entries := Suc (num_entries f),
                  offset := offset f + 30 + unat (filename_len e) + 9 + buf_len dat,
                  scratch := local_header_scratch localtime e (scratch f)\<rparr>"
    by (simp add: fd fd' fc fb efl)
  have 2: "out u2 = out (userdata f) @ local_record localtime e @ buf_bytes dat"
    if o: "observes f out" and s: "30 \<le> length (scratch f)"
  proof -
    have ob: "observes ?fb out" using o by (simp add: fb observes_def)
    have oc: "observes fc out" using o by (simp add: fc fb observes_def)
    from out1 ob s have "out u1 = out u0 @ local_record localtime e" by (simp add: fb)
    moreover from out2 oc vd have "out u2 = out u1 @ buf_bytes dat" by (simp add: fc)
    ultimately show ?thesis using out0 o by simp
  qed
  show "\<exists>v u. f' = f\<lparr>entries := v, userdata := u, num_entries := Suc (num_entries f),
                       offset := offset f + 30 + unat (filename_len e) + 9 + buf_len dat,
                       scratch := local_header_scratch localtime e (scratch f)\<rparr>
           \<and> num_entries f < length (data v) \<and> data v ! num_entries f = Entry e
           \<and> (observes f out \<longrightarrow> 30 \<le> length (scratch f) \<longrightarrow>
                out u = out (userdata f) @ local_record localtime e @ buf_bytes dat)
           \<and> (size_v (entries f) + sizeof_entry_ptr \<le> cap (entries f) \<longrightarrow>
                v = (entries f)\<lparr>data := (data (entries f))[num_entries f := Entry e]\<rparr>)
           \<and> (\<forall>j < num_entries f. data v ! j = data (entries f) ! j)"
    using 1 2 lt room keep
    by (intro exI [of _ "v0\<lparr>data := (data v0)[i := Entry e]\<rparr>"] exI [of _ u2])
       (auto simp add: i)
qed


section \<open>Finalizing\<close>

lemma load_entry_Inr:
  "load_entry f i = Inr e \<Longrightarrow> i < length (data (entries f)) \<and> data (entries f) ! i = Entry e
     \<and> deref f i = e"
  by (auto simp add: load_entry_def deref_def split: if_splits slot.splits)

lemma deref_frame:
  "entries g = entries f \<Longrightarrow> deref g i = deref f i"
  by (simp add: deref_def)

lemma load_entry_frame:
  "entries g = entries f \<Longrightarrow> load_entry g i = load_entry f i"
  by (simp add: load_entry_def)

lemma length_central_record:
  "entry_ok e \<Longrightarrow> length (central_record localtime e)
     = 46 + unat (filename_len e) + unat (extra_field_len e) + unat (comment_len e)"
  by (simp add: central_record_def entry_ok_def)

lemma central_directory_OK:
  assumes "central_directory localtime f i cd = Inr (PICOZIP_OK, f', cd')"
    and "observes f out" and "46 \<le> length (scratch f)"
    and "\<forall>j. i \<le> j \<and> j < num_entries f \<longrightarrow> entry_ok (deref f j)"
  shows "\<exists>u s. f' = f\<lparr>userdata := u,
                       offset := offset f + length (central_directory_bytes localtime
                                                      (map (deref f) [i..<num_entries f])),
                       scratch := s\<rparr>
           \<and> length s = length (scratch f)
           \<and> out u = out (userdata f)
                      @ central_directory_bytes localtime (map (deref f) [i..<num_entries f])
           \<and> cd' = cd + length (central_directory_bytes localtime
                                   (map (deref f) [i..<num_entries f]))
           \<and> (\<forall>j. i \<le> j \<and> j < num_entries f \<longrightarrow> load_entry f j = Inr (deref f j))"
  using assms
proof (induction localtime f i cd rule: central_directory.induct)
  case (1 localtime g i cd_size)
  show ?case
  proof (cases "i < num_entries g")
    case False
    with "1.prems"(1) have "f' = g" "cd' = cd_size"
      by (simp_all add: central_directory.simps [of localtime g i cd_size])
    with False show ?thesis
      by (intro exI [of _ "userdata g"] exI [of _ "scratch g"])
         (auto simp add: central_directory_bytes_def)
  next
    case True
    obtain e where le: "load_entry g i = Inr e"
      using "1.prems"(1) True
      by (cases "load_entry g i")
         (simp_all add: central_directory.simps [of localtime g i cd_size])
    then have de: "deref g i = e" by (simp add: load_entry_Inr)
    let ?n = "unat (filename_len e) + unat (extra_field_len e) + unat (comment_len e)"
    let ?f1 = "g\<lparr>scratch := central_header_scratch localtime e (scratch g)\<rparr>"
    define r1 where "r1 = PICOZIP__FLUSH ?f1 (scratch ?f1) PICOZIP__CD_HEADER_SIZE"
    define r2 where "r2 = PICOZIP__FLUSH (snd r1) (metadata e) ?n"
    from "1.prems"(1) True le have ok1: "fst r1" and ok2: "fst r2"
      and rec: "central_directory localtime (snd r2) (i + 1)
                  (cd_size + PICOZIP__CD_HEADER_SIZE + unat (filename_len e)
                   + unat (extra_field_len e) + unat (comment_len e))
                = Inr (PICOZIP_OK, f', cd')"
      unfolding r1_def r2_def
      by (auto simp add: central_directory.simps [of localtime g i cd_size] Let_def
          split: if_splits)
    have eok: "entry_ok e" using "1.prems"(4) True de by auto
    then have n: "?n \<le> length (metadata e)" by (simp add: entry_ok_def)
    have o1: "observes ?f1 out" using "1.prems"(2) by (simp add: observes_def)
    have 46: "PICOZIP__CD_HEADER_SIZE = 46" by (simp add: PICOZIP__CD_HEADER_SIZE_def)
    from ok1 have r1: "PICOZIP__FLUSH ?f1 (scratch ?f1) 46 = (True, snd r1)"
      by (simp add: r1_def 46 prod_eq_iff)
    from FLUSH_obs [OF r1 o1] "1.prems"(3) obtain u1
      where fa: "snd r1 = ?f1\<lparr>userdata := u1, offset := offset ?f1 + 46\<rparr>"
        and out1: "out u1 = out (userdata ?f1) @ take 46 (scratch ?f1)"
      by auto
    have o2: "observes (snd r1) out" using "1.prems"(2) by (simp add: fa observes_def)
    from ok2 have r2: "PICOZIP__FLUSH (snd r1) (metadata e) ?n = (True, snd r2)"
      by (simp add: r2_def prod_eq_iff)
    from FLUSH_obs [OF r2 o2 n] obtain u2
      where fb: "snd r2 = (snd r1)\<lparr>userdata := u2, offset := offset (snd r1) + ?n\<rparr>"
        and out2: "out u2 = out (userdata (snd r1)) @ take ?n (metadata e)"
      by auto
    have fb': "snd r2 = g\<lparr>userdata := u2, offset := offset g + 46 + ?n,
                 scratch := central_header_scratch localtime e (scratch g)\<rparr>"
      by (simp add: fb fa)
    have out2': "out u2 = out (userdata g) @ central_record localtime e"
      using out2 out1 "1.prems"(3)
      by (simp add: fa central_record_def take_central_header_scratch)
    have ent: "entries (snd r2) = entries g" and num: "num_entries (snd r2) = num_entries g"
      by (simp_all add: fb')
    have der: "\<And>j. deref (snd r2) j = deref g j"
      using ent by (rule deref_frame)
    have ob: "observes (snd r2) out" using "1.prems"(2) by (simp add: fb' observes_def)
    have sc: "46 \<le> length (scratch (snd r2))" using "1.prems"(3) by (simp add: fb')
    have oks: "\<forall>j. i + 1 \<le> j \<and> j < num_entries (snd r2) \<longrightarrow> entry_ok (deref (snd r2) j)"
      using "1.prems"(4) by (simp add: der num)
    have ih: "\<exists>u s. f' = (snd r2)\<lparr>userdata := u,
                       offset := offset (snd r2) + length (central_directory_bytes localtime
                                   (map (deref (snd r2)) [i + 1..<num_entries (snd r2)])),
                       scratch := s\<rparr>
           \<and> length s = length (scratch (snd r2))
           \<and> out u = out (userdata (snd r2))
                      @ central_directory_bytes localtime
                          (map (deref (snd r2)) [i + 1..<num_entries (snd r2)])
           \<and> cd' = cd_size + PICOZIP__CD_HEADER_SIZE + unat (filename_len e)
                   + unat (extra_field_len e) + unat (comment_len e)
                   + length (central_directory_bytes localtime
                               (map (deref (snd r2)) [i + 1..<num_entries (snd r2)]))
           \<and> (\<forall>j. i + 1 \<le> j \<and> j < num_entries (snd r2)
                  \<longrightarrow> load_entry (snd r2) j = Inr (deref (snd r2) j))"
      using ok1 ok2 rec ob sc oks
      unfolding r1_def r2_def
      by (intro "1.IH" [OF True le refl refl _ refl]) simp_all
    then obtain u s where
      f': "f' = (snd r2)\<lparr>userdata := u,
                offset := offset (snd r2) + length (central_directory_bytes localtime
                            (map (deref g) [Suc i..<num_entries g])),
                scratch := s\<rparr>"
      and ls: "length s = length (scratch g)"
      and outu: "out u = out u2 @ central_directory_bytes localtime
                            (map (deref g) [Suc i..<num_entries g])"
      and cd': "cd' = cd_size + 46 + ?n + length (central_directory_bytes localtime
                            (map (deref g) [Suc i..<num_entries g]))"
      and ld: "\<forall>j. Suc i \<le> j \<and> j < num_entries g \<longrightarrow> load_entry g j = Inr (deref g j)"
      unfolding der num load_entry_frame [OF ent] 46
      by (auto simp add: fb')
    have upt: "[i..<num_entries g] = i # [Suc i..<num_entries g]"
      using True by (simp add: upt_conv_Cons)
    have bytes: "central_directory_bytes localtime (map (deref g) [i..<num_entries g])
          = central_record localtime e
            @ central_directory_bytes localtime (map (deref g) [Suc i..<num_entries g])"
      by (simp add: upt central_directory_bytes_def de)
    have len: "length (central_record localtime e) = 46 + ?n"
      using eok by (simp add: length_central_record)
    have ld': "\<forall>j. i \<le> j \<and> j < num_entries g \<longrightarrow> load_entry g j = Inr (deref g j)"
    proof (intro allI impI)
      fix j assume j: "i \<le> j \<and> j < num_entries g"
      show "load_entry g j = Inr (deref g j)"
      proof (cases "j = i")
        case True then show ?thesis using le de by simp
      next
        case False with j ld show ?thesis by simp
      qed
    qed
    show ?thesis
      using outu out2' cd' ls ld' len
      by (intro exI [of _ u] exI [of _ s]) (simp add: f' fb' bytes)
  qed
qed

lemma ledger_deref:
  "(\<forall>e \<in> set (ledger f). P e) \<longleftrightarrow> (\<forall>j. 0 \<le> j \<and> j < num_entries f \<longrightarrow> P (deref f j))"
  by (auto simp add: ledger_def)

lemma end_ex_OK:
  assumes ok: "picozip_end_ex localtime (Some f) c = Inr (PICOZIP_OK, Some f')"
    and obs: "observes f out" and scr: "46 \<le> length (scratch f)"
    and eok: "\<forall>e \<in> set (ledger f). entry_ok e"
  defines "cd \<equiv> central_directory_bytes localtime (ledger f)"
  shows "\<exists>u s. f' = f\<lparr>userdata := u, offset := offset f + length cd + 22 + buf_len c,
                       scratch := s\<rparr>
           \<and> length s = length (scratch f)
           \<and> out u = out (userdata f) @ cd
                    @ eocd (num_entries f) (length cd) (offset f) (buf_len c) @ buf_bytes c"
    and "length (buf_bytes c) = buf_len c"
    and "\<forall>j < num_entries f. load_entry f j = Inr (deref f j)"
proof -
  from ok have valid: "\<not> (buf_len c \<noteq> 0 \<and> is_null c)"
    by (auto simp add: picozip_end_ex_def split: if_splits)
  then show vc: "length (buf_bytes c) = buf_len c" by (rule buf_valid)
  obtain err fa cd_size where loop: "central_directory localtime f 0 0 = Inr (err, fa, cd_size)"
    using ok valid
    by (cases "central_directory localtime f 0 0")
       (auto simp add: picozip_end_ex_def split: if_splits)
  from ok valid loop have err: "err = PICOZIP_OK"
    by (auto simp add: picozip_end_ex_def Let_def split: if_splits)
  from eok have eok': "\<forall>j. 0 \<le> j \<and> j < num_entries f \<longrightarrow> entry_ok (deref f j)"
    by (simp add: ledger_deref)
  from central_directory_OK [OF loop [unfolded err] obs scr eok'] obtain u0 s0
    where fa: "fa = f\<lparr>userdata := u0, offset := offset f + length cd, scratch := s0\<rparr>"
      and ls0: "length s0 = length (scratch f)"
      and out0: "out u0 = out (userdata f) @ cd"
      and cds: "cd_size = length cd"
      and ld: "\<forall>j. 0 \<le> j \<and> j < num_entries f \<longrightarrow> load_entry f j = Inr (deref f j)"
    unfolding cd_def ledger_def by auto
  from ld show "\<forall>j < num_entries f. load_entry f j = Inr (deref f j)" by simp
  let ?s1 = "eocd_scratch (num_entries f) (length cd) (offset f) (buf_len c) s0"
  let ?fb = "fa\<lparr>scratch := ?s1\<rparr>"
  obtain ok1 fc where fl1: "PICOZIP__FLUSH ?fb ?s1 22 = (ok1, fc)"
    by (cases "PICOZIP__FLUSH ?fb ?s1 22")
  have ob: "observes ?fb out" using obs by (simp add: fa observes_def)
  have step: "(if \<not> ok1 then Inr (PICOZIP_EIO, Some fc)
               else if is_null c then Inr (PICOZIP_OK, Some fc)
               else (let (ok, f) = PICOZIP__FLUSH fc (buf_bytes c) (buf_len c)
                     in if \<not> ok then Inr (PICOZIP_EIO, Some f) else Inr (PICOZIP_OK, Some f)))
              = (Inr (PICOZIP_OK, Some f') :: fault + status \<times> 'a picozip_file option)"
    using valid fl1 unfolding ok [symmetric]
    by (simp add: picozip_end_ex_def Let_def loop err cds fa PICOZIP__EOCD_SIZE_def)
  then have ok1: "ok1" by (auto split: if_splits)
  from fl1 ok1 have fl1: "PICOZIP__FLUSH ?fb (scratch ?fb) 22 = (True, fc)" by simp
  from FLUSH_obs [OF fl1 ob] scr ls0 obtain u1
    where fc: "fc = ?fb\<lparr>userdata := u1, offset := offset ?fb + 22\<rparr>"
      and out1: "out u1 = out (userdata ?fb) @ take 22 (scratch ?fb)"
    by auto
  have e22: "take 22 ?s1 = eocd (num_entries f) (length cd) (offset f) (buf_len c)"
    using scr ls0 by (simp add: take_eocd_scratch)
  have out1': "out u1 = out (userdata f) @ cd
                 @ eocd (num_entries f) (length cd) (offset f) (buf_len c)"
    using out1 out0 e22 by (simp add: fa)
  have oc: "observes fc out" using obs by (simp add: fc fa observes_def)
  show "\<exists>u s. f' = f\<lparr>userdata := u, offset := offset f + length cd + 22 + buf_len c,
                       scratch := s\<rparr>
           \<and> length s = length (scratch f)
           \<and> out u = out (userdata f) @ cd
                    @ eocd (num_entries f) (length cd) (offset f) (buf_len c) @ buf_bytes c"
  proof (cases "is_null c")
    case True
    with valid have z: "buf_len c = 0" "buf_bytes c = []" by (cases c; simp)+
    from step ok1 True have "f' = fc" by simp
    then show ?thesis
      using out1' ls0 by (intro exI [of _ u1] exI [of _ ?s1]) (simp add: fc fa z)
  next
    case False
    obtain ok2 fd where fl2: "PICOZIP__FLUSH fc (buf_bytes c) (buf_len c) = (ok2, fd)"
      by (cases "PICOZIP__FLUSH fc (buf_bytes c) (buf_len c)")
    from step ok1 False fl2 have ok2: "ok2" and fd: "f' = fd"
      by (auto split: if_splits)
    from fl2 ok2 have fl2: "PICOZIP__FLUSH fc (buf_bytes c) (buf_len c) = (True, fd)" by simp
    from FLUSH_obs [OF fl2 oc] vc obtain u2
      where fd': "fd = fc\<lparr>userdata := u2, offset := offset fc + buf_len c\<rparr>"
        and out2: "out u2 = out (userdata fc) @ take (buf_len c) (buf_bytes c)"
      by auto
    show ?thesis
      using out2 out1' ls0 vc
      by (intro exI [of _ u2] exI [of _ ?s1]) (simp add: fd fd' fc fa)
  qed
qed


section \<open>The fields of the records, read back\<close>

lemma u16_of_word_bytes:
  "(ucast (ucast (w :: u16) :: u8) :: u16)
   OR push_bit 8 (ucast (of_nat (drop_bit 8 (unat w)) :: u8)) = w"
  using u16_of_bytes [of "unat w"] by simp

lemma u32_of_word_bytes:
  "(ucast (ucast (w :: u32) :: u8) :: u32)
   OR push_bit 8 (ucast (of_nat (drop_bit 8 (unat w)) :: u8))
   OR push_bit 16 (ucast (of_nat (drop_bit 16 (unat w)) :: u8))
   OR push_bit 24 (ucast (of_nat (drop_bit 24 (unat w)) :: u8)) = w"
  using u32_of_bytes [of "unat w"] by simp

lemmas read_simps =
  le16_def le32_def READ_LE16_def READ_LE32_def u16_of_word_bytes u32_of_word_bytes
  u16_of_bytes u32_of_bytes

lemma READ_LE16_append:
  "off + 2 \<le> length xs \<Longrightarrow> READ_LE16 (xs @ ys) off = READ_LE16 xs off"
  by (simp add: READ_LE16_def nth_append)

lemma READ_LE32_append:
  "off + 4 \<le> length xs \<Longrightarrow> READ_LE32 (xs @ ys) off = READ_LE32 xs off"
  by (simp add: READ_LE32_def nth_append)

lemma READ_LE16_skip:
  "READ_LE16 (xs @ ys) (length xs + off) = READ_LE16 ys off"
  by (simp add: READ_LE16_def nth_append)

lemma READ_LE32_skip:
  "READ_LE32 (xs @ ys) (length xs + off) = READ_LE32 ys off"
  by (simp add: READ_LE32_def nth_append)

lemma bytes_at_skip: "bytes_at (xs @ ys) (length xs + off) n = bytes_at ys off n"
  by (simp add: bytes_at_def)

lemma bytes_at_skip0: "bytes_at (xs @ ys) (length xs) n = bytes_at ys 0 n"
  by (simp add: bytes_at_def)

lemma bytes_at_here: "n = length xs \<Longrightarrow> bytes_at (xs @ ys) 0 n = xs"
  by (simp add: bytes_at_def)

lemma eocd_fields:
  "READ_LE32 (eocd n cd_size cd_offset clen) 0 = 0x06054b50"
  "READ_LE16 (eocd n cd_size cd_offset clen) 4 = 0"
  "READ_LE16 (eocd n cd_size cd_offset clen) 6 = 0"
  "READ_LE16 (eocd n cd_size cd_offset clen) 8 = of_nat n"
  "READ_LE16 (eocd n cd_size cd_offset clen) 10 = of_nat n"
  "READ_LE32 (eocd n cd_size cd_offset clen) 12 = of_nat cd_size"
  "READ_LE32 (eocd n cd_size cd_offset clen) 16 = of_nat cd_offset"
  "READ_LE16 (eocd n cd_size cd_offset clen) 20 = of_nat clen"
  unfolding eocd_eq
  by (simp_all add: read_simps PICOZIP__EOCD_MAGIC_def)

lemma local_header_fields:
  "READ_LE32 (local_header localtime e) 0 = 0x04034b50"
  "READ_LE16 (local_header localtime e) 4 = version_extract e"
  "READ_LE16 (local_header localtime e) 6 = flags e"
  "READ_LE16 (local_header localtime e) 8 = comp_method e"
  "READ_LE16 (local_header localtime e) 10 = snd (picozip__time_to_dostime localtime (mod_time e))"
  "READ_LE16 (local_header localtime e) 12 = fst (picozip__time_to_dostime localtime (mod_time e))"
  "READ_LE32 (local_header localtime e) 14 = crc32 e"
  "READ_LE32 (local_header localtime e) 18 = comp_size e"
  "READ_LE32 (local_header localtime e) 22 = uncomp_size e"
  "READ_LE16 (local_header localtime e) 26 = filename_len e"
  "READ_LE16 (local_header localtime e) 28 = extra_field_len e"
  unfolding local_header_eq
  by (simp_all add: read_simps PICOZIP__LOCAL_MAGIC_def)

lemma central_header_fields:
  "READ_LE32 (central_header localtime e) 0 = 0x02014b50"
  "READ_LE16 (central_header localtime e) 4 = version_made e"
  "READ_LE16 (central_header localtime e) 6 = version_extract e"
  "READ_LE16 (central_header localtime e) 8 = flags e"
  "READ_LE16 (central_header localtime e) 10 = comp_method e"
  "READ_LE16 (central_header localtime e) 12 = snd (picozip__time_to_dostime localtime (mod_time e))"
  "READ_LE16 (central_header localtime e) 14 = fst (picozip__time_to_dostime localtime (mod_time e))"
  "READ_LE32 (central_header localtime e) 16 = crc32 e"
  "READ_LE32 (central_header localtime e) 20 = comp_size e"
  "READ_LE32 (central_header localtime e) 24 = uncomp_size e"
  "READ_LE16 (central_header localtime e) 28 = filename_len e"
  "READ_LE16 (central_header localtime e) 30 = extra_field_len e"
  "READ_LE16 (central_header localtime e) 32 = comment_len e"
  "READ_LE16 (central_header localtime e) 34 = 0"
  "READ_LE16 (central_header localtime e) 36 = internal_attr e"
  "READ_LE32 (central_header localtime e) 38 = external_attr e"
  "READ_LE32 (central_header localtime e) 42 = header_offset e"
  unfolding central_header_eq
  by (simp_all add: read_simps PICOZIP__CENTRAL_MAGIC_def)

lemma data_descriptor_fields:
  "READ_LE32 (data_descriptor e) 0 = 0x08074b50"
  "READ_LE32 (data_descriptor e) 4 = crc32 e"
  "READ_LE32 (data_descriptor e) 8 = comp_size e"
  "READ_LE32 (data_descriptor e) 12 = uncomp_size e"
  unfolding data_descriptor_eq
  by (simp_all add: read_simps PICOZIP__DATADESC_MAGIC_def)


lemma local_record_fields:
  "READ_LE32 (local_record localtime e) 0 = 0x04034b50"
  "READ_LE16 (local_record localtime e) 4 = version_extract e"
  "READ_LE16 (local_record localtime e) 6 = flags e"
  "READ_LE16 (local_record localtime e) 8 = comp_method e"
  "READ_LE16 (local_record localtime e) 10 = snd (picozip__time_to_dostime localtime (mod_time e))"
  "READ_LE16 (local_record localtime e) 12 = fst (picozip__time_to_dostime localtime (mod_time e))"
  "READ_LE32 (local_record localtime e) 14 = crc32 e"
  "READ_LE32 (local_record localtime e) 18 = comp_size e"
  "READ_LE32 (local_record localtime e) 22 = uncomp_size e"
  "READ_LE16 (local_record localtime e) 26 = filename_len e"
  "READ_LE16 (local_record localtime e) 28 = extra_field_len e"
  unfolding local_record_def
  by (simp_all add: READ_LE16_append READ_LE32_append local_header_fields)

lemma central_record_fields:
  "READ_LE32 (central_record localtime e) 0 = 0x02014b50"
  "READ_LE16 (central_record localtime e) 4 = version_made e"
  "READ_LE16 (central_record localtime e) 6 = version_extract e"
  "READ_LE16 (central_record localtime e) 8 = flags e"
  "READ_LE16 (central_record localtime e) 10 = comp_method e"
  "READ_LE16 (central_record localtime e) 12 = snd (picozip__time_to_dostime localtime (mod_time e))"
  "READ_LE16 (central_record localtime e) 14 = fst (picozip__time_to_dostime localtime (mod_time e))"
  "READ_LE32 (central_record localtime e) 16 = crc32 e"
  "READ_LE32 (central_record localtime e) 20 = comp_size e"
  "READ_LE32 (central_record localtime e) 24 = uncomp_size e"
  "READ_LE16 (central_record localtime e) 28 = filename_len e"
  "READ_LE16 (central_record localtime e) 30 = extra_field_len e"
  "READ_LE16 (central_record localtime e) 32 = comment_len e"
  "READ_LE16 (central_record localtime e) 34 = 0"
  "READ_LE16 (central_record localtime e) 36 = internal_attr e"
  "READ_LE32 (central_record localtime e) 38 = external_attr e"
  "READ_LE32 (central_record localtime e) 42 = header_offset e"
  unfolding central_record_def
  by (simp_all add: READ_LE16_append READ_LE32_append central_header_fields)

lemma local_record_bytes:
  assumes "k + n \<le> unat (filename_len e) + unat (extra_field_len e)"
  shows "bytes_at (local_record localtime e) (30 + k) n = take n (drop k (metadata e))"
  using assms by (simp add: bytes_at_def local_record_def drop_take min_def)

lemma central_record_bytes:
  assumes "k + n \<le> unat (filename_len e) + unat (extra_field_len e) + unat (comment_len e)"
  shows "bytes_at (central_record localtime e) (46 + k) n = take n (drop k (metadata e))"
  using assms by (simp add: bytes_at_def central_record_def drop_take min_def)

lemma length_local_record:
  "unat (filename_len e) + unat (extra_field_len e) \<le> length (metadata e)
   \<Longrightarrow> length (local_record localtime e) = 30 + unat (filename_len e) + unat (extra_field_len e)"
  by (simp add: local_record_def)

lemma unat_of_nat_u16: "n < 65536 \<Longrightarrow> unat (of_nat n :: u16) = n"
  by (simp add: unat_of_nat)

lemma unat_of_nat_u32: "n < 4294967296 \<Longrightarrow> unat (of_nat n :: u32) = n"
  by (simp add: unat_of_nat)

section \<open>Adding an entry from a stream\<close>

lemma stream_content_True:
  assumes "stream_content f i fptr n = (True, f', n')"
    and "i < length (data (entries f))"
    and "data (entries f) ! i = Entry e0"
  shows "\<exists>u. f' = f\<lparr>entries := (entries f)\<lparr>data := (data (entries f))
                          [i := Entry (e0\<lparr>crc32 := picozip__crc32 fptr (crc32 e0)\<rparr>)]\<rparr>,
                     userdata := u, offset := offset f + length fptr\<rparr>
             \<and> (observes f out \<longrightarrow> out u = out (userdata f) @ fptr)
             \<and> n' = n + length fptr"
  using assms
proof (induction f i fptr n arbitrary: e0 rule: stream_content.induct)
  case (1 g entry fptr file_size)
  define buffer where "buffer = take PICOZIP_READ_BUF fptr"
  let ?e1 = "e0\<lparr>crc32 := picozip__crc32 buffer (crc32 e0)\<rparr>"
  define g1 where "g1 = store_entry g entry ?e1"
  define r where "r = PICOZIP__FLUSH g1 buffer (length buffer)"
  have de: "deref g entry = e0" using "1.prems"(3) by (simp add: deref_def)
  have unf: "stream_content g entry fptr file_size =
        (if \<not> fst r then (False, snd r, file_size)
         else if length buffer = PICOZIP_READ_BUF
         then stream_content (snd r) entry (drop PICOZIP_READ_BUF fptr)
                (file_size + length buffer)
         else (True, snd r, file_size + length buffer))"
    by (subst stream_content.simps) (simp add: Let_def de r_def g1_def buffer_def)
  from "1.prems"(1) unf have ok: "fst r" by (auto split: if_splits)
  have g1: "g1 = g\<lparr>entries := (entries g)\<lparr>data := (data (entries g))[entry := Entry ?e1]\<rparr>\<rparr>"
    by (simp add: g1_def store_entry_def)
  have o1: "observes g out \<Longrightarrow> observes g1 out" by (simp add: g1 observes_def)
  from ok have fl: "PICOZIP__FLUSH g1 buffer (length buffer) = (True, snd r)"
    by (simp add: r_def prod_eq_iff)
  from FLUSH_True [OF fl, of out] o1 obtain u1
    where r1: "snd r = g1\<lparr>userdata := u1, offset := offset g1 + length buffer\<rparr>"
      and out1: "observes g out \<longrightarrow> out u1 = out (userdata g1) @ buffer"
    by auto
  show ?case
  proof (cases "length buffer = PICOZIP_READ_BUF")
    case False
    then have whole: "buffer = fptr" by (simp add: buffer_def min_def split: if_splits)
    from "1.prems"(1) unf ok False have "f' = snd r" "n' = file_size + length buffer"
      by simp_all
    then show ?thesis
      using out1 whole by (intro exI [of _ u1]) (simp add: r1 g1)
  next
    case True
    let ?rest = "drop PICOZIP_READ_BUF fptr"
    from "1.prems"(1) unf ok True
    have rec: "stream_content (snd r) entry ?rest (file_size + length buffer) = (True, f', n')"
      by simp
    have o2: "observes (snd r) out = observes g out" by (simp add: r1 g1 observes_def)
    have lt: "entry < length (data (entries (snd r)))" using "1.prems"(2) by (simp add: r1 g1)
    have sl: "data (entries (snd r)) ! entry = Entry ?e1" using "1.prems"(2) by (simp add: r1 g1)
    have "\<exists>u. f' = (snd r)\<lparr>entries := (entries (snd r))\<lparr>data := (data (entries (snd r)))
                          [entry := Entry (?e1\<lparr>crc32 := picozip__crc32 ?rest (crc32 ?e1)\<rparr>)]\<rparr>,
                     userdata := u, offset := offset (snd r) + length ?rest\<rparr>
             \<and> (observes (snd r) out \<longrightarrow> out u = out (userdata (snd r)) @ ?rest)
             \<and> n' = file_size + length buffer + length ?rest"
      using ok True rec lt sl
      unfolding r_def g1_def buffer_def
      by (intro "1.IH" [OF refl refl de [symmetric] refl refl]) simp_all
    then obtain u where
      f': "f' = (snd r)\<lparr>entries := (entries (snd r))\<lparr>data := (data (entries (snd r)))
                          [entry := Entry (?e1\<lparr>crc32 := picozip__crc32 ?rest (crc32 ?e1)\<rparr>)]\<rparr>,
                     userdata := u, offset := offset (snd r) + length ?rest\<rparr>"
      and outu: "observes g out \<longrightarrow> out u = out (userdata (snd r)) @ ?rest"
      and n': "n' = file_size + length buffer + length ?rest"
      unfolding o2 by blast
    have crc: "picozip__crc32 ?rest (picozip__crc32 buffer (crc32 e0))
               = picozip__crc32 fptr (crc32 e0)"
      using picozip__crc32_append [of buffer ?rest "crc32 e0"] by (simp add: buffer_def)
    have len: "length buffer + length ?rest = length fptr" by (simp add: buffer_def)
    have bytes: "buffer @ ?rest = fptr" by (simp add: buffer_def)
    have "observes g out \<longrightarrow> out u = out (userdata g) @ fptr"
      using outu out1 bytes by (auto simp add: r1 g1)
    moreover have "n' = file_size + length fptr" using n' len by simp
    moreover have "f' = g\<lparr>entries := (entries g)\<lparr>data := (data (entries g))
                          [entry := Entry (e0\<lparr>crc32 := picozip__crc32 fptr (crc32 e0)\<rparr>)]\<rparr>,
                     userdata := u, offset := offset g + length fptr\<rparr>"
      using len by (simp add: f' r1 g1 crc)
    ultimately show ?thesis by (intro exI [of _ u]) simp
  qed
qed

lemma stream_entry_fields:
  "version_made (stream_entry n off p mtime c) = 0"
  "version_extract (stream_entry n off p mtime c) = 0x14"
  "flags (stream_entry n off p mtime c) = 8"
  "comp_method (stream_entry n off p mtime c) = 0"
  "internal_attr (stream_entry n off p mtime c) = 0"
  "external_attr (stream_entry n off p mtime c) = 0"
  "header_offset (stream_entry n off p mtime c) = of_nat off"
  "mod_time (stream_entry n off p mtime c) = mtime"
  "comp_size (stream_entry n off p mtime c) = 0"
  "uncomp_size (stream_entry n off p mtime c) = 0"
  "filename_len (stream_entry n off p mtime c) = of_nat (length p)"
  "extra_field_len (stream_entry n off p mtime c) = 9"
  "comment_len (stream_entry n off p mtime c) = of_nat (buf_len c)"
  "crc32 (stream_entry n off p mtime c) = 0"
  by (simp_all add: stream_entry_def fresh_entry_def Let_def PICOZIP__MIN_VERSION_def
      PICOZIP__ATTR_SIZE_def PICOZIP__LOCAL_TIMESTAMP_SIZE_def PICOZIP__FLAG_DATADESC_def)

lemma stream_entry_metadata:
  assumes "n = length p + buf_len c + 9" and "length (buf_bytes c) = buf_len c"
  shows "metadata (stream_entry n off p mtime c) = p @ timestamp_field mtime @ buf_bytes c"
  using assms by (simp add: stream_entry_def fresh_entry_def Let_def fill_metadata_eq)

text \<open>The entry a successful streamed add leaves in the ledger.\<close>

lemma file_OK:
  assumes ok: "picozip_new_entry_file localtime (Some f) (Some p) (Some fp) c
               = Inr (PICOZIP_OK, Some f')"
  shows "\<exists>mtime v u s.
           st_mtime fp = Some mtime
           \<and> f' = f\<lparr>entries := v, userdata := u, num_entries := Suc (num_entries f),
                    offset := offset f + 30
                              + unat (filename_len (stream_entry (length p + buf_len c + 9)
                                                      (offset f) p mtime c))
                              + 9 + length (contents fp) + 16,
                    scratch := s\<rparr>
           \<and> length s = length (scratch f)
           \<and> num_entries f < length (data v)
           \<and> data v ! num_entries f
               = Entry ((stream_entry (length p + buf_len c + 9) (offset f) p mtime c)
                          \<lparr>crc32 := NOT (picozip__crc32 (contents fp) PICOZIP__CRC_START),
                           comp_size := of_nat (length (contents fp)),
                           uncomp_size := of_nat (length (contents fp))\<rparr>)
           \<and> (observes f out \<longrightarrow> 30 \<le> length (scratch f) \<longrightarrow>
              out u = out (userdata f)
                @ local_record localtime (stream_entry (length p + buf_len c + 9) (offset f) p mtime c)
                @ contents fp
                @ data_descriptor ((stream_entry (length p + buf_len c + 9) (offset f) p mtime c)
                          \<lparr>crc32 := NOT (picozip__crc32 (contents fp) PICOZIP__CRC_START),
                           comp_size := of_nat (length (contents fp)),
                           uncomp_size := of_nat (length (contents fp))\<rparr>))
           \<and> (\<forall>j < num_entries f. data v ! j = data (entries f) ! j)"
    and "length (buf_bytes c) = buf_len c"
proof -
  let ?m = "length p + buf_len c + PICOZIP__ATTR_SIZE + PICOZIP__LOCAL_TIMESTAMP_SIZE"
  have m: "?m = length p + buf_len c + 9"
    by (simp add: PICOZIP__ATTR_SIZE_def PICOZIP__LOCAL_TIMESTAMP_SIZE_def)
  from ok have valid: "\<not> (buf_len c \<noteq> 0 \<and> is_null c)"
    by (auto simp add: picozip_new_entry_file_def split: if_splits)
  then show vc: "length (buf_bytes c) = buf_len c" by (rule buf_valid)
  from ok valid obtain mtime where mt: "st_mtime fp = Some mtime"
    by (cases "st_mtime fp") (auto simp add: picozip_new_entry_file_def)
  obtain i fa where al: "picozip__alloc_entry f ?m = Inr (Some i, fa)"
    using ok valid mt
    by (cases "picozip__alloc_entry f ?m")
       (auto simp add: picozip_new_entry_file_def Let_def split: option.splits)
  from alloc_entry_Some [OF al, of out] obtain v0 u0
    where fa: "fa = f\<lparr>entries := v0, userdata := u0, num_entries := Suc (num_entries f)\<rparr>"
      and i: "i = num_entries f" and lt: "i < length (data v0)"
      and out0: "observes f out \<longrightarrow> out u0 = out (userdata f)"
      and keep: "\<forall>j < num_entries f. data v0 ! j = data (entries f) ! j"
    by auto
  define e where "e = stream_entry (length p + buf_len c + 9) (offset f) p mtime c"
  have e: "stream_entry ?m (offset fa) p mtime c = e"
    by (simp add: e_def m fa)
  define fb where "fb = store_entry fa i e"
  obtain err fc where wl: "picozip__write_local_entry localtime fb e = (err, fc)"
    by (cases "picozip__write_local_entry localtime fb e")
  define fd where "fd = store_entry fc i (e\<lparr>crc32 := PICOZIP__CRC_START\<rparr>)"
  obtain ok2 fe n where sc: "stream_content fd i (contents fp) 0 = (ok2, fe, n)"
    by (cases "stream_content fd i (contents fp) 0")
  define e2 where "e2 = (deref fe i)\<lparr>crc32 := crc32 (deref fe i) XOR 0xFFFFFFFF\<rparr>
                          \<lparr>comp_size := of_nat n, uncomp_size := of_nat n\<rparr>"
  define D where "D = datadesc_scratch e2 (scratch (store_entry fe i e2))"
  define ff where "ff = (store_entry fe i e2)\<lparr>scratch := D\<rparr>"
  obtain ok3 fg where fl: "PICOZIP__FLUSH ff D PICOZIP__DATADESC_SIZE = (ok3, fg)"
    by (cases "PICOZIP__FLUSH ff D PICOZIP__DATADESC_SIZE")
  have v': "(0 < buf_len c \<and> is_null c) = False" using valid by auto
  have run: "picozip_new_entry_file localtime (Some f) (Some p) (Some fp) c =
        (if err \<noteq> PICOZIP_OK then rollback err fc
         else if \<not> ok2 then rollback PICOZIP_EIO fe
         else if \<not> ok3 then rollback PICOZIP_EIO fg
         else Inr (PICOZIP_OK, Some fg))"
    by (simp add: picozip_new_entry_file_def v' mt al e Let_def fb_def [symmetric] wl
        fd_def [symmetric] sc e2_def [symmetric] D_def [symmetric] ff_def [symmetric] fl)
  have rb: "\<And>x g. x \<noteq> PICOZIP_OK \<Longrightarrow> rollback x g \<noteq> Inr (PICOZIP_OK, Some f')"
    by (auto simp add: rollback_def split: sum.splits)
  from ok run rb have err: "err = PICOZIP_OK" and ok2: "ok2" and ok3: "ok3" and fg: "f' = fg"
    by (auto split: if_splits)
  have fb: "fb = f\<lparr>entries := v0\<lparr>data := (data v0)[i := Entry e]\<rparr>, userdata := u0,
                     num_entries := Suc (num_entries f)\<rparr>"
    by (simp add: fb_def store_entry_def fa)
  have ob: "observes fb out = observes f out" by (simp add: fb observes_def)
  have md: "metadata e = p @ timestamp_field mtime @ buf_bytes c"
    unfolding e_def using vc by (intro stream_entry_metadata) simp_all
  have efl: "unat (extra_field_len e) = 9" by (simp add: e_def stream_entry_fields)
  have bound: "unat (filename_len e) + unat (extra_field_len e) \<le> length (metadata e)"
    using unat_of_nat_u16_le [of "length p"]
    by (simp add: md efl) (simp add: e_def stream_entry_fields)
  from wl err have wl: "picozip__write_local_entry localtime fb e = (PICOZIP_OK, fc)" by simp
  from write_local_entry_OK [OF wl, of out] bound obtain u1
    where fc: "fc = fb\<lparr>userdata := u1,
                     offset := offset fb + 30 + unat (filename_len e) + unat (extra_field_len e),
                     scratch := local_header_scratch localtime e (scratch fb)\<rparr>"
      and out1: "observes f out \<longrightarrow> 30 \<le> length (scratch f)
                 \<longrightarrow> out u1 = out (userdata fb) @ local_record localtime e"
    unfolding ob by (auto simp add: fb)
  have fd: "fd = f\<lparr>entries := v0\<lparr>data := (data v0)[i := Entry (e\<lparr>crc32 := PICOZIP__CRC_START\<rparr>)]\<rparr>,
                   userdata := u1, num_entries := Suc (num_entries f),
                   offset := offset f + 30 + unat (filename_len e) + 9,
                   scratch := local_header_scratch localtime e (scratch f)\<rparr>"
    by (simp add: fd_def store_entry_def fc fb efl)
  have od: "observes fd out = observes f out" by (simp add: fd observes_def)
  have ltd: "i < length (data (entries fd))" using lt by (simp add: fd)
  have sld: "data (entries fd) ! i = Entry (e\<lparr>crc32 := PICOZIP__CRC_START\<rparr>)"
    using lt by (simp add: fd)
  from sc ok2 have sc: "stream_content fd i (contents fp) 0 = (True, fe, n)" by simp
  from stream_content_True [OF sc ltd sld, of out] obtain u2
    where fe: "fe = fd\<lparr>entries := (entries fd)\<lparr>data := (data (entries fd))
                  [i := Entry (e\<lparr>crc32 := picozip__crc32 (contents fp) PICOZIP__CRC_START\<rparr>)]\<rparr>,
                userdata := u2, offset := offset fd + length (contents fp)\<rparr>"
      and out2: "observes f out \<longrightarrow> out u2 = out (userdata fd) @ contents fp"
      and n: "n = length (contents fp)"
    unfolding od by auto
  define e3 where "e3 = e\<lparr>crc32 := NOT (picozip__crc32 (contents fp) PICOZIP__CRC_START),
                          comp_size := of_nat (length (contents fp)),
                          uncomp_size := of_nat (length (contents fp))\<rparr>"
  have dfe: "deref fe i = e\<lparr>crc32 := picozip__crc32 (contents fp) PICOZIP__CRC_START\<rparr>"
    using lt by (simp add: deref_def fe fd)
  have e2: "e2 = e3" by (simp add: e2_def e3_def dfe n NOT_u32)
  have ff: "ff = f\<lparr>entries := v0\<lparr>data := (data v0)[i := Entry e3]\<rparr>,
                   userdata := u2, num_entries := Suc (num_entries f),
                   offset := offset f + 30 + unat (filename_len e) + 9 + length (contents fp),
                   scratch := datadesc_scratch e3 (local_header_scratch localtime e (scratch f))\<rparr>"
    by (simp add: ff_def D_def e2 store_entry_def fe fd)
  have off: "observes ff out = observes f out" by (simp add: ff observes_def)
  from fl ok3 have fl: "PICOZIP__FLUSH ff (scratch ff) 16 = (True, fg)"
    by (simp add: PICOZIP__DATADESC_SIZE_def ff_def)
  from FLUSH_True [OF fl, of out] obtain u3
    where fg': "fg = ff\<lparr>userdata := u3, offset := offset ff + 16\<rparr>"
      and out3: "observes f out \<longrightarrow> 16 \<le> length (scratch ff)
                 \<longrightarrow> out u3 = out (userdata ff) @ take 16 (scratch ff)"
    unfolding off by auto
  have outf: "out u3 = out (userdata f) @ local_record localtime e @ contents fp
                @ data_descriptor e3"
    if obs: "observes f out" and scr: "30 \<le> length (scratch f)"
  proof -
    have dd: "take 16 (scratch ff) = data_descriptor e3"
      using scr by (simp add: ff take_datadesc_scratch)
    have "16 \<le> length (scratch ff)" using scr by (simp add: ff)
    with out3 obs have "out u3 = out (userdata ff) @ take 16 (scratch ff)" by simp
    then have "out u3 = out u2 @ data_descriptor e3" by (simp only: dd) (simp add: ff)
    moreover from out2 obs have "out u2 = out u1 @ contents fp" by (simp add: fd)
    moreover from out1 obs scr have "out u1 = out u0 @ local_record localtime e"
      by (simp add: fb)
    ultimately show ?thesis using out0 obs by simp
  qed
  have f'': "f' = f\<lparr>entries := v0\<lparr>data := (data v0)[i := Entry e3]\<rparr>, userdata := u3,
                   num_entries := Suc (num_entries f),
                   offset := offset f + 30 + unat (filename_len e) + 9 + length (contents fp) + 16,
                   scratch := datadesc_scratch e3 (local_header_scratch localtime e (scratch f))\<rparr>"
    by (simp add: fg fg' ff)
  show "\<exists>mtime v u s.
           st_mtime fp = Some mtime
           \<and> f' = f\<lparr>entries := v, userdata := u, num_entries := Suc (num_entries f),
                    offset := offset f + 30
                              + unat (filename_len (stream_entry (length p + buf_len c + 9)
                                                      (offset f) p mtime c))
                              + 9 + length (contents fp) + 16,
                    scratch := s\<rparr>
           \<and> length s = length (scratch f)
           \<and> num_entries f < length (data v)
           \<and> data v ! num_entries f
               = Entry ((stream_entry (length p + buf_len c + 9) (offset f) p mtime c)
                          \<lparr>crc32 := NOT (picozip__crc32 (contents fp) PICOZIP__CRC_START),
                           comp_size := of_nat (length (contents fp)),
                           uncomp_size := of_nat (length (contents fp))\<rparr>)
           \<and> (observes f out \<longrightarrow> 30 \<le> length (scratch f) \<longrightarrow>
              out u = out (userdata f)
                @ local_record localtime (stream_entry (length p + buf_len c + 9) (offset f) p mtime c)
                @ contents fp
                @ data_descriptor ((stream_entry (length p + buf_len c + 9) (offset f) p mtime c)
                          \<lparr>crc32 := NOT (picozip__crc32 (contents fp) PICOZIP__CRC_START),
                           comp_size := of_nat (length (contents fp)),
                           uncomp_size := of_nat (length (contents fp))\<rparr>))
           \<and> (\<forall>j < num_entries f. data v ! j = data (entries f) ! j)"
    using mt f'' lt outf keep unfolding e3_def e_def i
    by (intro exI [of _ mtime] exI [of _ "v0\<lparr>data := (data v0)[num_entries f := Entry
           ((stream_entry (length p + buf_len c + 9) (offset f) p mtime c)
                          \<lparr>crc32 := NOT (picozip__crc32 (contents fp) PICOZIP__CRC_START),
                           comp_size := of_nat (length (contents fp)),
                           uncomp_size := of_nat (length (contents fp))\<rparr>)]\<rparr>"]
        exI [of _ u3]
        exI [of _ "datadesc_scratch ((stream_entry (length p + buf_len c + 9) (offset f) p mtime c)
                          \<lparr>crc32 := NOT (picozip__crc32 (contents fp) PICOZIP__CRC_START),
                           comp_size := of_nat (length (contents fp)),
                           uncomp_size := of_nat (length (contents fp))\<rparr>)
                   (local_header_scratch localtime
                      (stream_entry (length p + buf_len c + 9) (offset f) p mtime c) (scratch f))"])
       simp
qed


section \<open>Either way to add an entry\<close>

lemma header_entry_fields:
  "version_made (header_entry off p src c) = 0"
  "version_extract (header_entry off p src c) = 0x14"
  "comp_method (header_entry off p src c) = 0"
  "internal_attr (header_entry off p src c) = 0"
  "external_attr (header_entry off p src c) = 0"
  "header_offset (header_entry off p src c) = of_nat off"
  "mod_time (header_entry off p src c) = src_mtime src"
  "filename_len (header_entry off p src c) = of_nat (length p)"
  "extra_field_len (header_entry off p src c) = 9"
  "comment_len (header_entry off p src c) = of_nat (buf_len c)"
  by (simp_all add: header_entry_def src_mtime_def mem_entry_fields stream_entry_fields
      split: source.split)

lemma header_entry_metadata:
  assumes "length (buf_bytes c) = buf_len c"
  shows "metadata (header_entry off p src c) = p @ timestamp_field (src_mtime src) @ buf_bytes c"
  using assms
  by (cases src)
     (simp_all add: header_entry_def src_mtime_def mem_entry_metadata stream_entry_metadata
        PICOZIP__ATTR_SIZE_def PICOZIP__LOCAL_TIMESTAMP_SIZE_def)

lemma final_entry_fields:
  "version_made (final_entry off p src c) = version_made (header_entry off p src c)"
  "version_extract (final_entry off p src c) = version_extract (header_entry off p src c)"
  "flags (final_entry off p src c) = flags (header_entry off p src c)"
  "comp_method (final_entry off p src c) = comp_method (header_entry off p src c)"
  "internal_attr (final_entry off p src c) = internal_attr (header_entry off p src c)"
  "external_attr (final_entry off p src c) = external_attr (header_entry off p src c)"
  "header_offset (final_entry off p src c) = header_offset (header_entry off p src c)"
  "mod_time (final_entry off p src c) = mod_time (header_entry off p src c)"
  "filename_len (final_entry off p src c) = filename_len (header_entry off p src c)"
  "extra_field_len (final_entry off p src c) = extra_field_len (header_entry off p src c)"
  "comment_len (final_entry off p src c) = comment_len (header_entry off p src c)"
  "metadata (final_entry off p src c) = metadata (header_entry off p src c)"
  by (simp_all add: final_entry_def split: source.split)

lemma final_entry_content:
  assumes "\<And>dat mtime. src = Known dat mtime \<Longrightarrow> length (buf_bytes dat) = buf_len dat"
  shows "crc32 (final_entry off p src c) = NOT (picozip__crc32 (content src) PICOZIP__CRC_START)"
    and "comp_size (final_entry off p src c) = of_nat (length (content src))"
    and "uncomp_size (final_entry off p src c) = of_nat (length (content src))"
  using assms
  by (cases src;
      simp add: final_entry_def header_entry_def content_def mem_entry_fields NOT_u32)+

lemma header_entry_content:
  "flags (header_entry off p src c) = (case src of Known dat mtime \<Rightarrow> 0 | Streamed fp \<Rightarrow> 8)"
  "crc32 (header_entry off p src c)
     = (case src of Known dat mtime \<Rightarrow> crc32 (final_entry off p src c) | Streamed fp \<Rightarrow> 0)"
  "comp_size (header_entry off p src c)
     = (case src of Known dat mtime \<Rightarrow> comp_size (final_entry off p src c) | Streamed fp \<Rightarrow> 0)"
  "uncomp_size (header_entry off p src c)
     = (case src of Known dat mtime \<Rightarrow> uncomp_size (final_entry off p src c) | Streamed fp \<Rightarrow> 0)"
  by (simp_all add: final_entry_def header_entry_def mem_entry_fields stream_entry_fields
      split: source.split)

lemma final_entry_ok:
  assumes "length (buf_bytes c) = buf_len c"
  shows "entry_ok (final_entry off p src c)"
  using unat_of_nat_u16_le [of "length p"] unat_of_nat_u16_le [of "buf_len c"] assms
  by (simp add: entry_ok_def final_entry_fields header_entry_fields header_entry_metadata)

lemma add_entry_OK:
  assumes ok: "add_entry localtime (Some f) (Some p) src c = Inr (PICOZIP_OK, Some f')"
  shows "\<exists>v u s.
           f' = f\<lparr>entries := v, userdata := u, num_entries := Suc (num_entries f),
                  offset := offset f + 30 + unat (of_nat (length p) :: u16) + 9
                            + length (content src) + length (trailer (offset f) p src c),
                  scratch := s\<rparr>
           \<and> length s = length (scratch f)
           \<and> num_entries f < length (data v)
           \<and> data v ! num_entries f = Entry (final_entry (offset f) p src c)
           \<and> (observes f out \<longrightarrow> 30 \<le> length (scratch f) \<longrightarrow>
                out u = out (userdata f)
                        @ local_record localtime (header_entry (offset f) p src c)
                        @ content src @ trailer (offset f) p src c)
           \<and> (\<forall>j < num_entries f. data v ! j = data (entries f) ! j)"
    and "length (buf_bytes c) = buf_len c"
proof -
  have 9: "PICOZIP__ATTR_SIZE + PICOZIP__LOCAL_TIMESTAMP_SIZE = 9"
    by (simp add: PICOZIP__ATTR_SIZE_def PICOZIP__LOCAL_TIMESTAMP_SIZE_def)
  show "\<exists>v u s.
           f' = f\<lparr>entries := v, userdata := u, num_entries := Suc (num_entries f),
                  offset := offset f + 30 + unat (of_nat (length p) :: u16) + 9
                            + length (content src) + length (trailer (offset f) p src c),
                  scratch := s\<rparr>
           \<and> length s = length (scratch f)
           \<and> num_entries f < length (data v)
           \<and> data v ! num_entries f = Entry (final_entry (offset f) p src c)
           \<and> (observes f out \<longrightarrow> 30 \<le> length (scratch f) \<longrightarrow>
                out u = out (userdata f)
                        @ local_record localtime (header_entry (offset f) p src c)
                        @ content src @ trailer (offset f) p src c)
           \<and> (\<forall>j < num_entries f. data v ! j = data (entries f) ! j)"
  proof (cases src)
    case (Known dat mtime)
    with ok have ok': "picozip_new_entry_mem_ex localtime (Some f) (Some p) dat mtime c
                       = Inr (PICOZIP_OK, Some f')"
      by (simp add: add_entry_def)
    define e where "e = mem_entry (length p + buf_len c + 9) (offset f) p dat mtime c"
    from mem_ex_OK(1) [OF ok', of out] mem_ex_OK(2) [OF ok'] obtain v u
      where f': "f' = f\<lparr>entries := v, userdata := u, num_entries := Suc (num_entries f),
                       offset := offset f + 30 + unat (filename_len e) + 9 + buf_len dat,
                       scratch := local_header_scratch localtime e (scratch f)\<rparr>"
        and lt: "num_entries f < length (data v)" and sl: "data v ! num_entries f = Entry e"
        and out: "observes f out \<longrightarrow> 30 \<le> length (scratch f) \<longrightarrow>
                    out u = out (userdata f) @ local_record localtime e @ buf_bytes dat"
        and ld: "length (buf_bytes dat) = buf_len dat"
        and keep: "\<forall>j < num_entries f. data v ! j = data (entries f) ! j"
      unfolding e_def by blast
    have h: "header_entry (offset f) p src c = e" "final_entry (offset f) p src c = e"
      by (simp_all add: final_entry_def header_entry_def Known e_def add.assoc 9)
    have fl: "filename_len e = of_nat (length p)" by (simp add: e_def mem_entry_fields)
    show ?thesis
      using f' lt sl out ld keep unfolding h
      by (intro exI [of _ v] exI [of _ u]
            exI [of _ "local_header_scratch localtime e (scratch f)"])
         (simp add: Known content_def trailer_def fl)
  next
    case (Streamed fp)
    with ok have ok': "picozip_new_entry_file localtime (Some f) (Some p) (Some fp) c
                       = Inr (PICOZIP_OK, Some f')"
      by (simp add: add_entry_def)
    from file_OK(1) [OF ok', of out] obtain mtime v u s
      where mt: "st_mtime fp = Some mtime"
        and rest: "f' = f\<lparr>entries := v, userdata := u, num_entries := Suc (num_entries f),
                    offset := offset f + 30
                              + unat (filename_len (stream_entry (length p + buf_len c + 9)
                                                      (offset f) p mtime c))
                              + 9 + length (contents fp) + 16,
                    scratch := s\<rparr>
           \<and> length s = length (scratch f)
           \<and> num_entries f < length (data v)
           \<and> data v ! num_entries f
               = Entry ((stream_entry (length p + buf_len c + 9) (offset f) p mtime c)
                          \<lparr>crc32 := NOT (picozip__crc32 (contents fp) PICOZIP__CRC_START),
                           comp_size := of_nat (length (contents fp)),
                           uncomp_size := of_nat (length (contents fp))\<rparr>)
           \<and> (observes f out \<longrightarrow> 30 \<le> length (scratch f) \<longrightarrow>
              out u = out (userdata f)
                @ local_record localtime (stream_entry (length p + buf_len c + 9) (offset f) p mtime c)
                @ contents fp
                @ data_descriptor ((stream_entry (length p + buf_len c + 9) (offset f) p mtime c)
                          \<lparr>crc32 := NOT (picozip__crc32 (contents fp) PICOZIP__CRC_START),
                           comp_size := of_nat (length (contents fp)),
                           uncomp_size := of_nat (length (contents fp))\<rparr>))
           \<and> (\<forall>j < num_entries f. data v ! j = data (entries f) ! j)"
      by blast
    have h: "stream_entry (length p + buf_len c + 9) (offset f) p mtime c
             = header_entry (offset f) p src c"
      by (simp add: header_entry_def Streamed src_mtime_def mt add.assoc 9)
    have c: "contents fp = content src" by (simp add: content_def Streamed)
    have e: "(header_entry (offset f) p src c)
               \<lparr>crc32 := NOT (picozip__crc32 (content src) PICOZIP__CRC_START),
                comp_size := of_nat (length (content src)),
                uncomp_size := of_nat (length (content src))\<rparr>
             = final_entry (offset f) p src c"
      by (simp add: final_entry_def Streamed NOT_u32 content_def)
    have t: "data_descriptor (final_entry (offset f) p src c) = trailer (offset f) p src c"
      by (simp add: trailer_def Streamed)
    from rest [unfolded h c, unfolded e t] show ?thesis
      by (intro exI [of _ v] exI [of _ u] exI [of _ s])
         (simp add: header_entry_fields t [symmetric])
  qed
  from ok show "length (buf_bytes c) = buf_len c"
    by (cases src)
       (auto simp add: add_entry_def mem_ex_OK(3) file_OK(2))
qed

lemma add_entry_deref:
  assumes "add_entry localtime (Some f) (Some p) src c = Inr (PICOZIP_OK, Some f')"
  shows "deref f' (num_entries f) = final_entry (offset f) p src c"
    and "num_entries f' = Suc (num_entries f)"
    and "load_entry f' (num_entries f) = Inr (final_entry (offset f) p src c)"
proof -
  from add_entry_OK(1) [OF assms, of "\<lambda>u. []"] obtain v u s k
    where f': "f' = f\<lparr>entries := v, userdata := u, num_entries := Suc (num_entries f),
                      offset := k, scratch := s\<rparr>"
      and lt: "num_entries f < length (data v)"
      and sl: "data v ! num_entries f = Entry (final_entry (offset f) p src c)"
    by blast
  show "deref f' (num_entries f) = final_entry (offset f) p src c"
    by (simp add: f' deref_def sl)
  show "num_entries f' = Suc (num_entries f)" by (simp add: f')
  show "load_entry f' (num_entries f) = Inr (final_entry (offset f) p src c)"
    using lt by (simp add: f' load_entry_def sl)
qed

section \<open>The example sessions\<close>

lemma observes_harness:
  assumes "alloc_cb f = custom_alloc" "write_cb f = custom_write" "free_cb f = custom_free"
  shows "observes f mem"
  unfolding observes_def assms
  by (auto simp add: custom_alloc_def custom_write_def custom_free_def split: if_splits)

lemma observes_new_session: "observes (new_session a w) mem"
  by (rule observes_harness) (simp_all add: new_session_def)

lemma observes_session_of: "observes (session_of p src w) mem"
  by (rule observes_harness) (simp_all add: session_of_def new_session_def)

lemma observes_finalized: "observes f mem \<Longrightarrow> observes (finalized f) mem"
  by (simp add: observes_def finalized_def Let_def)

lemma scratch_new_session: "length (scratch (new_session a w)) = 64"
  by (simp add: new_session_def)

lemma scratch_session_of: "length (scratch (session_of p src w)) = 64"
  by (simp add: session_of_def split: source.split)

lemmas model_defs =
  add_entry_def picozip_new_entry_mem_def picozip_new_entry_mem_ex_def
  picozip_new_entry_file_def picozip__alloc_entry_def picozip__vec_alloc_def
  picozip__write_local_entry_def PICOZIP__FLUSH_def rollback_def picozip__free_last_entry_def
  store_entry_def deref_def load_entry_def custom_alloc_def custom_write_def custom_free_def
  new_session_def sizeof_entry_ptr_def Let_def PICOZIP__LOCAL_HEADER_SIZE_def
  PICOZIP__ATTR_SIZE_def PICOZIP__LOCAL_TIMESTAMP_SIZE_def PICOZIP__DATADESC_SIZE_def
  PICOZIP__CD_HEADER_SIZE_def PICOZIP__EOCD_SIZE_def
  PICOZIP_READ_BUF_def mem_entry_fields mem_entry_metadata stream_entry_fields
  stream_entry_metadata

lemmas example_defs =
  session_of_def header_entry_def final_entry_def content_def trailer_def src_mtime_def
  local_record_def take_local_header_scratch take_datadesc_scratch

lemma add_src_a:
  "add_entry localtime_utc (Some (new_session 9 9)) (Some [0x61]) src_a (NULL 0)
   = Inr (PICOZIP_OK, Some (session_of [0x61] src_a 6))"
  by (simp add: model_defs src_a_def example_defs)

lemma add_src_s:
  "add_entry localtime_utc (Some (new_session 9 9)) (Some [0x61]) src_s (NULL 0)
   = Inr (PICOZIP_OK, Some (session_of [0x61] src_s 5))"
  by (simp add: model_defs src_s_def stream_content.simps example_defs NOT_u32)

lemma add_src_d:
  "add_entry localtime_utc (Some (new_session 9 9)) (Some [0x64, 0x2F]) src_d (NULL 0)
   = Inr (PICOZIP_OK, Some (session_of [0x64, 0x2F] src_d 6))"
  by (simp add: model_defs src_d_def example_defs)

lemma ledger_session_of: "ledger (session_of p src w) = [final_entry 0 p src (NULL 0)]"
  by (simp add: ledger_def session_of_def deref_def)

lemma ledger_new_session: "ledger (new_session a w) = []"
  by (simp add: ledger_def new_session_def)

lemmas end_defs =
  picozip_end_def picozip_end_ex_def central_directory.simps finalized_def ledger_def
  central_directory_bytes_def central_record_def take_central_header_scratch take_eocd_scratch

lemma end_src_a:
  "picozip_end_ex localtime_utc (Some (session_of [0x61] src_a 6)) (NULL 0)
   = Inr (PICOZIP_OK, Some (finalized (session_of [0x61] src_a 6)))"
  by (simp add: end_defs session_of_def src_a_def model_defs example_defs)

lemma end_src_s:
  "picozip_end_ex localtime_utc (Some (session_of [0x61] src_s 5)) (NULL 0)
   = Inr (PICOZIP_OK, Some (finalized (session_of [0x61] src_s 5)))"
  by (simp add: end_defs session_of_def src_s_def model_defs example_defs)

lemma end_new_session:
  "picozip_end localtime_utc (Some (new_session 0 9))
   = Inr (PICOZIP_OK, Some (finalized (new_session 0 9)))"
  by (simp add: end_defs model_defs)

lemma end_finalized:
  "picozip_end localtime_utc (Some (finalized (new_session 0 9)))
   = Inr (PICOZIP_OK, Some (finalized (finalized (new_session 0 9))))"
  by (simp add: end_defs model_defs)

lemma entry_ok_session_of: "list_all entry_ok (ledger (session_of p src w))"
  by (simp add: ledger_session_of final_entry_ok)

lemma picozip_new_harness:
  "picozip_new True (Some custom_write) (Some custom_alloc) (Some custom_free)
     \<lparr>num_alloc_success = Suc a, num_write_success = w, mem = []\<rparr>
   = (PICOZIP_OK, Some (new_session a w),
      \<lparr>num_alloc_success = a, num_write_success = w, mem = []\<rparr>)"
  by (simp add: picozip_new_def custom_alloc_def new_session_def
      PICOZIP__SCRATCH_BUFFER_SIZE_def)

lemma end_src_d:
  "picozip_end_ex localtime_utc (Some (session_of [0x64, 0x2F] src_d 6)) (NULL 0)
   = Inr (PICOZIP_OK, Some (finalized (session_of [0x64, 0x2F] src_d 6)))"
  by (simp add: end_defs session_of_def src_d_def model_defs example_defs)

lemma mem_session_of:
  "mem (userdata (session_of p src w))
   = local_record localtime_utc (header_entry 0 p src (NULL 0)) @ content src
     @ trailer 0 p src (NULL 0)"
  by (simp add: session_of_def)

lemma mem_finalized:
  "mem (userdata (finalized f))
   = mem (userdata f) @ central_directory_bytes localtime_utc (ledger f)
     @ eocd (num_entries f) (length (central_directory_bytes localtime_utc (ledger f)))
         (offset f) 0"
  by (simp add: finalized_def Let_def)

lemma picozip__crc32_Nil: "picozip__crc32 [] PICOZIP__CRC_START = 0"
  by (simp add: picozip__crc32_reference reference_crc32_def)

lemma length_local_record_header_entry:
  "length (local_record localtime (header_entry off p src (NULL 0)))
   = 30 + unat (of_nat (length p) :: u16) + 9"
  using unat_of_nat_u16_le [of "length p"]
  by (simp add: local_record_def header_entry_fields header_entry_metadata)

lemma observes_sure:
  assumes "alloc_cb f = sure_alloc" "write_cb f = sure_write" "free_cb f = sure_free"
  shows "observes f (\<lambda>u. u)"
  unfolding observes_def assms by (simp add: sure_alloc_def sure_write_def sure_free_def)

lemma observes_slack_session: "observes (slack_session k) (\<lambda>u. u)"
  by (rule observes_sure) (simp_all add: slack_session_def)

lemma scratch_slack_session: "length (scratch (slack_session k)) = 64"
  by (simp add: slack_session_def PICOZIP__SCRATCH_BUFFER_SIZE_def)

lemma sure_slack_session:
  "\<forall>u n. fst (alloc_cb (slack_session k) u n)"
  "\<forall>u bs. fst (write_cb (slack_session k) u bs) = length bs"
  by (simp_all add: slack_session_def sure_alloc_def sure_write_def)

lemmas sure_defs =
  slack_session_def sure_alloc_def sure_write_def sure_free_def PICOZIP__SCRATCH_BUFFER_SIZE_def

lemma slack_session_2:
  "slack_session 2
   = \<lparr>alloc_cb = sure_alloc, write_cb = sure_write, free_cb = sure_free, offset = 0,
      num_entries = 0, entries = \<lparr>data = [Garbage, Garbage], cap = 8, size_v = 0\<rparr>,
      userdata = [], scratch = replicate 64 0\<rparr>"
  by (simp add: slack_session_def numeral_2_eq_2 sizeof_entry_ptr_def
      PICOZIP__SCRATCH_BUFFER_SIZE_def)

lemma add_one_file:
  "add_entry localtime_utc (Some (slack_session 2)) (Some [0x61]) src_a (NULL 0)
   = Inr (PICOZIP_OK, Some one_file)"
  unfolding slack_session_2 one_file_def
  by (simp add: src_a_def sure_alloc_def sure_write_def sure_free_def model_defs
      on_disk.simps header_entry_def final_entry_def content_def
      trailer_def src_mtime_def local_record_def take_local_header_scratch)

lemma add_two_files:
  "add_entry localtime_utc (Some one_file) (Some [0x62]) src_s (NULL 0)
   = Inr (PICOZIP_OK, Some two_files)"
  unfolding one_file_def two_files_def
  by (simp add: src_a_def src_s_def sure_alloc_def sure_write_def sure_free_def model_defs
      stream_content.simps on_disk.simps header_entry_def final_entry_def content_def
      trailer_def src_mtime_def local_record_def take_local_header_scratch
      take_datadesc_scratch NOT_u32)

lemma add_two_requests:
  "add_entries localtime_utc (slack_session 2) two_requests = Inr (PICOZIP_OK, Some two_files)"
  by (simp add: two_requests_def add_one_file add_two_files)


section \<open>A run of adds\<close>

lemma length_on_disk:
  assumes "length (buf_bytes c) = buf_len c"
  shows "length (on_disk localtime (off, p, src, c))
         = 30 + unat (of_nat (length p) :: u16) + 9 + length (content src)
           + length (trailer off p src c)"
  using unat_of_nat_u16_le [of "length p"] assms
  by (simp add: local_record_def header_entry_fields header_entry_metadata)

declare on_disk.simps [simp del]

lemma length_trailer:
  "length (trailer off p src c) = (case src of Known dat mtime \<Rightarrow> 0 | Streamed fp \<Rightarrow> 16)"
  by (simp add: trailer_def split: source.split)

lemma length_layout [simp]: "length (layout localtime off xs) = length xs"
  by (induction xs arbitrary: off) simp_all

lemma map_snd_layout [simp]: "map snd (layout localtime off xs) = xs"
  by (induction xs arbitrary: off) simp_all

lemma add_entries_Cons:
  assumes "add_entries localtime f ((p, src, c) # xs) = Inr (PICOZIP_OK, Some f')"
  shows "\<exists>f1. add_entry localtime (Some f) (Some p) src c = Inr (PICOZIP_OK, Some f1)
              \<and> add_entries localtime f1 xs = Inr (PICOZIP_OK, Some f')"
proof (cases "add_entry localtime (Some f) (Some p) src c")
  case (Inl x)
  with assms show ?thesis by simp
next
  case (Inr y)
  obtain s g where y: "y = (s, g)" by (cases y)
  show ?thesis
  proof (cases g)
    case None
    with assms Inr y show ?thesis by (cases s) simp_all
  next
    case (Some f1)
    with assms Inr y show ?thesis by (cases s) simp_all
  qed
qed

text \<open>What a run that succeeded has done to the session.\<close>

lemma add_entries_OK:
  assumes "add_entries localtime f xs = Inr (PICOZIP_OK, Some f')"
  shows "num_entries f' = num_entries f + length xs
         \<and> alloc_cb f' = alloc_cb f \<and> write_cb f' = write_cb f \<and> free_cb f' = free_cb f
         \<and> length (scratch f') = length (scratch f)
         \<and> offset f' = offset f
             + length (concat (map (on_disk localtime) (layout localtime (offset f) xs)))
         \<and> (\<forall>j < num_entries f. data (entries f') ! j = data (entries f) ! j)
         \<and> (xs \<noteq> [] \<longrightarrow> num_entries f' \<le> length (data (entries f')))
         \<and> (\<forall>i < length xs. data (entries f') ! (num_entries f + i)
               = Entry (ledger_entry (layout localtime (offset f) xs ! i)))
         \<and> (observes f out \<longrightarrow> 30 \<le> length (scratch f) \<longrightarrow>
              out (userdata f') = out (userdata f)
                @ concat (map (on_disk localtime) (layout localtime (offset f) xs)))
         \<and> list_all (\<lambda>(p, src, c). length (buf_bytes c) = buf_len c) xs"
  using assms
proof (induction xs arbitrary: f)
  case Nil
  then show ?case by simp
next
  case (Cons x xs)
  obtain p src c where x: "x = (p, src, c)" by (cases x)
  from add_entries_Cons [OF Cons.prems [unfolded x]] obtain f1
    where a: "add_entry localtime (Some f) (Some p) src c = Inr (PICOZIP_OK, Some f1)"
      and r: "add_entries localtime f1 xs = Inr (PICOZIP_OK, Some f')"
    by blast
  from add_entry_OK(2) [OF a] have vc: "length (buf_bytes c) = buf_len c" .
  let ?r = "on_disk localtime (offset f, p, src, c)"
  from add_entry_OK(1) [OF a, of out] obtain v u s
    where f1: "f1 = f\<lparr>entries := v, userdata := u, num_entries := Suc (num_entries f),
                       offset := offset f + 30 + unat (of_nat (length p) :: u16) + 9
                                 + length (content src) + length (trailer (offset f) p src c),
                       scratch := s\<rparr>"
      and ls: "length s = length (scratch f)"
      and lt: "num_entries f < length (data v)"
      and sl: "data v ! num_entries f = Entry (final_entry (offset f) p src c)"
      and out1: "observes f out \<longrightarrow> 30 \<le> length (scratch f) \<longrightarrow> out u = out (userdata f) @ ?r"
      and keep: "\<forall>j < num_entries f. data v ! j = data (entries f) ! j"
    by (auto simp add: on_disk.simps)
  have off1: "offset f1 = offset f + length ?r"
    by (simp add: f1 length_on_disk [OF vc])
  have ob: "observes f1 out = observes f out" by (simp add: f1 observes_def)
  note ih = Cons.IH [OF r]
  have lay: "layout localtime (offset f) (x # xs)
             = (offset f, p, src, c) # layout localtime (offset f1) xs"
    by (simp add: x off1)
  have r_eq: "?r = local_record localtime (header_entry (offset f) p src c) @ content src
                   @ trailer (offset f) p src c"
    by (simp add: on_disk.simps)
  have n1: "num_entries f1 = Suc (num_entries f)" by (simp add: f1)
  have 1: "num_entries f' = num_entries f + length (x # xs)" using ih by (simp add: n1)
  have 2: "alloc_cb f' = alloc_cb f \<and> write_cb f' = write_cb f \<and> free_cb f' = free_cb f"
    using ih by (simp add: f1)
  have 3: "length (scratch f') = length (scratch f)" using ih ls by (simp add: f1)
  have 4: "offset f' = offset f
             + length (concat (map (on_disk localtime) (layout localtime (offset f) (x # xs))))"
    using ih unfolding lay by (simp add: off1)
  have k1: "data (entries f') ! j = data (entries f1) ! j" if "j < Suc (num_entries f)" for j
    using ih that by (simp add: n1)
  have 5: "\<forall>j < num_entries f. data (entries f') ! j = data (entries f) ! j"
    using k1 keep by (simp add: f1)
  have 6: "num_entries f' \<le> length (data (entries f'))"
  proof (cases "xs = []")
    case True
    with r have "f' = f1" by simp
    with lt show ?thesis by (simp add: f1)
  next
    case False
    with ih show ?thesis by simp
  qed
  have 7: "data (entries f') ! (num_entries f + i)
           = Entry (ledger_entry (layout localtime (offset f) (x # xs) ! i))"
    if i: "i < length (x # xs)" for i
  proof (cases i)
    case 0
    with k1 [of "num_entries f"] sl show ?thesis unfolding lay by (simp add: f1)
  next
    case (Suc k)
    with i have "k < length xs" by simp
    with ih have "data (entries f') ! (num_entries f1 + k)
                  = Entry (ledger_entry (layout localtime (offset f1) xs ! k))"
      by simp
    then show ?thesis unfolding lay by (simp add: Suc n1)
  qed
  have 8: "out (userdata f') = out (userdata f)
             @ concat (map (on_disk localtime) (layout localtime (offset f) (x # xs)))"
    if o: "observes f out" and sc: "30 \<le> length (scratch f)"
  proof -
    from o sc out1 have "out (userdata f1) = out (userdata f) @ ?r" by (simp add: f1)
    moreover from ih o sc ls ob
    have "out (userdata f') = out (userdata f1)
            @ concat (map (on_disk localtime) (layout localtime (offset f1) xs))"
      by (simp add: f1)
    ultimately show ?thesis unfolding lay by simp
  qed
  have 9: "list_all (\<lambda>(p, src, c). length (buf_bytes c) = buf_len c) (x # xs)"
    using ih vc by (simp add: x)
  from 1 2 3 4 5 6 7 8 9 show ?case by blast
qed

lemma add_entries_ledger:
  assumes "add_entries localtime f xs = Inr (PICOZIP_OK, Some f')"
  shows "ledger f' = ledger f @ map ledger_entry (layout localtime (offset f) xs)"
proof -
  note t = add_entries_OK [OF assms, of "\<lambda>u. []"]
  have n: "num_entries f' = num_entries f + length xs" using t by blast
  show ?thesis
  proof (rule nth_equalityI)
    show "length (ledger f') = length (ledger f @ map ledger_entry (layout localtime (offset f) xs))"
      by (simp add: ledger_def n)
  next
    fix i assume "i < length (ledger f')"
    then have i: "i < num_entries f + length xs" by (simp add: ledger_def n)
    show "ledger f' ! i = (ledger f @ map ledger_entry (layout localtime (offset f) xs)) ! i"
    proof (cases "i < num_entries f")
      case True
      with t have "data (entries f') ! i = data (entries f) ! i" by blast
      with True i show ?thesis by (simp add: ledger_def n nth_append deref_def)
    next
      case False
      then obtain k where k: "i = num_entries f + k" "k < length xs"
        using i by (metis add_diff_inverse_nat nat_add_left_cancel_less)
      with t have "data (entries f') ! (num_entries f + k)
                   = Entry (ledger_entry (layout localtime (offset f) xs ! k))"
        by blast
      with k show ?thesis by (simp add: ledger_def n nth_append deref_def)
    qed
  qed
qed

lemma ledger_entry_ok:
  assumes "list_all (\<lambda>(p, src, c). length (buf_bytes c) = buf_len c) xs"
  shows "list_all entry_ok (map ledger_entry (layout localtime off xs))"
  using assms
proof (induction xs arbitrary: off)
  case Nil
  then show ?case by simp
next
  case (Cons x xs)
  obtain p src c where x: "x = (p, src, c)" by (cases x)
  with Cons show ?case by (simp add: final_entry_ok)
qed

section \<open>Callbacks that do not fail\<close>

lemma buf_valid_iff:
  "length (buf_bytes b) = buf_len b \<longleftrightarrow> \<not> (buf_len b \<noteq> 0 \<and> is_null b)"
  by (cases b) auto

lemma FLUSH_accepted:
  assumes "\<forall>u bs. fst (write_cb f u bs) = length bs" and "n \<le> length src"
  shows "\<exists>u. PICOZIP__FLUSH f src n = (True, f\<lparr>userdata := u, offset := offset f + n\<rparr>)"
proof -
  obtain k u where w: "write_cb f (userdata f) (take n src) = (k, u)"
    by (cases "write_cb f (userdata f) (take n src)")
  with assms(1) have "k = length (take n src)" by (metis fst_conv)
  with assms(2) have "k = n" by simp
  with w have "PICOZIP__FLUSH f src n = (True, f\<lparr>userdata := u, offset := offset f + n\<rparr>)"
    by (simp add: PICOZIP__FLUSH_def)
  then show ?thesis by blast
qed

lemma write_local_entry_accepted:
  assumes w: "\<forall>u bs. fst (write_cb f u bs) = length bs"
    and "30 \<le> length (scratch f)"
    and "unat (filename_len e) + unat (extra_field_len e) \<le> length (metadata e)"
  shows "\<exists>f'. picozip__write_local_entry localtime f e = (PICOZIP_OK, f')"
proof -
  let ?f0 = "f\<lparr>scratch := local_header_scratch localtime e (scratch f)\<rparr>"
  let ?n = "unat (filename_len e) + unat (extra_field_len e)"
  have w0: "\<forall>u bs. fst (write_cb ?f0 u bs) = length bs" using w by simp
  from FLUSH_accepted [OF w0, of 30 "scratch ?f0"] assms(2) obtain u1
    where 1: "PICOZIP__FLUSH ?f0 (scratch ?f0) 30
              = (True, ?f0\<lparr>userdata := u1, offset := offset ?f0 + 30\<rparr>)"
    by auto
  let ?f1 = "?f0\<lparr>userdata := u1, offset := offset ?f0 + 30\<rparr>"
  have w1: "\<forall>u bs. fst (write_cb ?f1 u bs) = length bs" using w by simp
  from FLUSH_accepted [OF w1 assms(3)] obtain u2
    where 2: "PICOZIP__FLUSH ?f1 (metadata e) ?n
              = (True, ?f1\<lparr>userdata := u2, offset := offset ?f1 + ?n\<rparr>)"
    by auto
  from 1 2 show ?thesis
    by (simp add: picozip__write_local_entry_def Let_def PICOZIP__LOCAL_HEADER_SIZE_def)
qed

text \<open>
  An add from memory succeeds when the entry is allocated and no write fails; the entry is
  allocated when the allocator does not fail and the pointer array has room, or is
  allocated now for the first entry.
\<close>

lemma mem_ex_written:
  assumes ae: "picozip__alloc_entry f (length p + buf_len c + PICOZIP__ATTR_SIZE
                                       + PICOZIP__LOCAL_TIMESTAMP_SIZE) = Inr (Some i, fa)"
    and w: "\<forall>u bs. fst (write_cb f u bs) = length bs"
    and scr: "30 \<le> length (scratch f)"
    and vd: "length (buf_bytes dat) = buf_len dat" and vc: "length (buf_bytes c) = buf_len c"
  shows "\<exists>f'. picozip_new_entry_mem_ex localtime (Some f) (Some p) dat mtime c
               = Inr (PICOZIP_OK, Some f')"
proof -
  let ?m = "length p + buf_len c + PICOZIP__ATTR_SIZE + PICOZIP__LOCAL_TIMESTAMP_SIZE"
  have m: "?m = length p + buf_len c + 9"
    by (simp add: PICOZIP__ATTR_SIZE_def PICOZIP__LOCAL_TIMESTAMP_SIZE_def)
  from vd vc have valid: "\<not> ((buf_len dat \<noteq> 0 \<and> is_null dat) \<or> (buf_len c \<noteq> 0 \<and> is_null c))"
    by (simp add: buf_valid_iff)
  from alloc_entry_Some [OF ae, of "\<lambda>u. []"] obtain v u
    where fa: "fa = f\<lparr>entries := v, userdata := u, num_entries := Suc (num_entries f)\<rparr>"
    by blast
  let ?e = "mem_entry ?m (offset fa) p dat mtime c"
  let ?fb = "store_entry fa i ?e"
  have wb: "\<forall>u bs. fst (write_cb ?fb u bs) = length bs" using w by (simp add: store_entry_def fa)
  have sb: "30 \<le> length (scratch ?fb)" using scr by (simp add: store_entry_def fa)
  have bound: "unat (filename_len ?e) + unat (extra_field_len ?e) \<le> length (metadata ?e)"
    using mem_entry_bound [OF vc, of p "offset fa" dat mtime] by (simp add: m)
  from write_local_entry_accepted [OF wb sb bound] obtain fc
    where wl: "picozip__write_local_entry localtime ?fb ?e = (PICOZIP_OK, fc)"
    by blast
  from write_local_entry_frame(4) [OF wl] w
  have wc: "\<forall>u bs. fst (write_cb fc u bs) = length bs" by (simp add: store_entry_def fa)
  from FLUSH_accepted [OF wc, of "buf_len dat" "buf_bytes dat"] vd obtain u3
    where fl: "PICOZIP__FLUSH fc (buf_bytes dat) (buf_len dat)
               = (True, fc\<lparr>userdata := u3, offset := offset fc + buf_len dat\<rparr>)"
    by auto
  show ?thesis
    using valid
    by (simp only: picozip_new_entry_mem_ex_def option.case prod.case if_False ae sum.case
        Let_def wl fl)
       simp
qed

lemma mem_ex_accepted:
  assumes al: "\<forall>u n. fst (alloc_cb f u n)"
    and w: "\<forall>u bs. fst (write_cb f u bs) = length bs"
    and room: "size_v (entries f) + sizeof_entry_ptr \<le> cap (entries f)"
    and lt: "num_entries f < length (data (entries f))"
    and scr: "30 \<le> length (scratch f)"
    and vd: "length (buf_bytes dat) = buf_len dat" and vc: "length (buf_bytes c) = buf_len c"
  shows "\<exists>f'. picozip_new_entry_mem_ex localtime (Some f) (Some p) dat mtime c
               = Inr (PICOZIP_OK, Some f')"
proof -
  let ?m = "length p + buf_len c + PICOZIP__ATTR_SIZE + PICOZIP__LOCAL_TIMESTAMP_SIZE"
  obtain b u1 where a1: "alloc_cb f (userdata f) (sizeof_picozip__entry + ?m) = (b, u1)"
    by (cases "alloc_cb f (userdata f) (sizeof_picozip__entry + ?m)")
  with al have b: "b" by (metis fst_conv)
  have "\<exists>fa. picozip__alloc_entry f ?m = Inr (Some (num_entries f), fa)"
    using a1 b lt by (simp add: picozip__alloc_entry_def vec_alloc_room [OF room])
  then obtain fa where "picozip__alloc_entry f ?m = Inr (Some (num_entries f), fa)" by blast
  from mem_ex_written [OF this w scr vd vc] show ?thesis .
qed

text \<open>The first add to the session \<^verbatim>\<open>picozip_new\<close> returns.\<close>

lemma picozip_new_OK:
  assumes "picozip_new ofile wr al fr u0 = (PICOZIP_OK, Some g, u1)"
  shows "\<exists>w a r. wr = Some w \<and> al = Some a \<and> fr = Some r
           \<and> g = \<lparr>alloc_cb = a, write_cb = w, free_cb = r, offset = 0, num_entries = 0,
                  entries = \<lparr>data = [], cap = 0, size_v = 0\<rparr>, userdata = u1,
                  scratch = replicate PICOZIP__SCRATCH_BUFFER_SIZE 0\<rparr>"
  using assms
  by (auto simp add: picozip_new_def Let_def split: option.splits if_splits prod.splits)

lemma mem_ex_first_accepted:
  assumes new: "picozip_new ofile wr al fr u0 = (PICOZIP_OK, Some g, u1)"
    and al: "\<forall>u n. fst (alloc_cb g u n)"
    and w: "\<forall>u bs. fst (write_cb g u bs) = length bs"
    and vd: "length (buf_bytes dat) = buf_len dat" and vc: "length (buf_bytes c) = buf_len c"
  shows "\<exists>g'. picozip_new_entry_mem_ex localtime (Some g) (Some p) dat mtime c
               = Inr (PICOZIP_OK, Some g')"
proof -
  let ?m = "length p + buf_len c + PICOZIP__ATTR_SIZE + PICOZIP__LOCAL_TIMESTAMP_SIZE"
  from picozip_new_OK [OF new] have e: "entries g = \<lparr>data = [], cap = 0, size_v = 0\<rparr>"
    and n: "num_entries g = 0" and s: "length (scratch g) = 64"
    by (auto simp add: PICOZIP__SCRATCH_BUFFER_SIZE_def)
  obtain b1 u2 where a1: "alloc_cb g (userdata g) sizeof_entry_ptr = (b1, u2)"
    by (cases "alloc_cb g (userdata g) sizeof_entry_ptr")
  with al have b1: "b1" by (metis fst_conv)
  obtain b2 u3 where a2: "alloc_cb g u2 (sizeof_picozip__entry + ?m) = (b2, u3)"
    by (cases "alloc_cb g u2 (sizeof_picozip__entry + ?m)")
  with al have b2: "b2" by (metis fst_conv)
  have "\<exists>fa. picozip__alloc_entry g ?m = Inr (Some (num_entries g), fa)"
    using a1 b1 a2 b2
    by (simp add: picozip__alloc_entry_def picozip__vec_alloc_def e n Let_def
        sizeof_entry_ptr_def)
  then obtain fa where "picozip__alloc_entry g ?m = Inr (Some (num_entries g), fa)" by blast
  from mem_ex_written [OF this w _ vd vc] s show ?thesis by simp
qed

text \<open>The loop of \<^verbatim>\<open>picozip_end_ex\<close> runs to its end when no write fails.\<close>

lemma central_directory_accepted:
  assumes "\<forall>u bs. fst (write_cb f u bs) = length bs"
    and "\<forall>j. i \<le> j \<and> j < num_entries f \<longrightarrow> load_entry f j = Inr (deref f j)"
    and "\<forall>j. i \<le> j \<and> j < num_entries f \<longrightarrow> entry_ok (deref f j)"
    and "46 \<le> length (scratch f)"
  shows "\<exists>f' cd'. central_directory localtime f i cd = Inr (PICOZIP_OK, f', cd')
           \<and> write_cb f' = write_cb f \<and> length (scratch f') = length (scratch f)"
  using assms
proof (induction localtime f i cd rule: central_directory.induct)
  case (1 localtime g i cd_size)
  show ?case
  proof (cases "i < num_entries g")
    case False
    then show ?thesis by (simp add: central_directory.simps [of localtime g i cd_size])
  next
    case True
    define e where "e = deref g i"
    from "1.prems"(2) True have le: "load_entry g i = Inr e" by (simp add: e_def)
    from "1.prems"(3) True have eok: "entry_ok e" by (simp add: e_def)
    let ?n = "unat (filename_len e) + unat (extra_field_len e) + unat (comment_len e)"
    let ?f1 = "g\<lparr>scratch := central_header_scratch localtime e (scratch g)\<rparr>"
    define r1 where "r1 = PICOZIP__FLUSH ?f1 (scratch ?f1) PICOZIP__CD_HEADER_SIZE"
    define r2 where "r2 = PICOZIP__FLUSH (snd r1) (metadata e) ?n"
    have w1: "\<forall>u bs. fst (write_cb ?f1 u bs) = length bs" using "1.prems"(1) by simp
    have 46: "PICOZIP__CD_HEADER_SIZE = 46" by (simp add: PICOZIP__CD_HEADER_SIZE_def)
    from FLUSH_accepted [OF w1, of 46 "scratch ?f1"] "1.prems"(4) obtain u1
      where a: "r1 = (True, ?f1\<lparr>userdata := u1, offset := offset ?f1 + 46\<rparr>)"
      by (auto simp add: r1_def 46)
    have w2: "\<forall>u bs. fst (write_cb (snd r1) u bs) = length bs"
      using "1.prems"(1) by (simp add: a)
    from eok have n: "?n \<le> length (metadata e)" by (simp add: entry_ok_def)
    from FLUSH_accepted [OF w2 n] obtain u2
      where b: "r2 = (True, (snd r1)\<lparr>userdata := u2, offset := offset (snd r1) + ?n\<rparr>)"
      by (auto simp add: r2_def)
    have fb: "snd r2 = g\<lparr>userdata := u2, offset := offset g + 46 + ?n,
                 scratch := central_header_scratch localtime e (scratch g)\<rparr>"
      by (simp add: b a)
    have ok1: "fst r1" by (simp add: a)
    have ok2: "fst r2" by (simp add: b)
    have ent: "entries (snd r2) = entries g" by (simp add: fb)
    have w3: "\<forall>u bs. fst (write_cb (snd r2) u bs) = length bs"
      using "1.prems"(1) by (simp add: fb)
    have l3: "\<forall>j. i + 1 \<le> j \<and> j < num_entries (snd r2)
                \<longrightarrow> load_entry (snd r2) j = Inr (deref (snd r2) j)"
      using "1.prems"(2) unfolding load_entry_frame [OF ent] deref_frame [OF ent]
      by (simp add: fb)
    have o3: "\<forall>j. i + 1 \<le> j \<and> j < num_entries (snd r2) \<longrightarrow> entry_ok (deref (snd r2) j)"
      using "1.prems"(3) unfolding deref_frame [OF ent] by (simp add: fb)
    have s3: "46 \<le> length (scratch (snd r2))" using "1.prems"(4) by (simp add: fb)
    have "\<exists>f' cd'. central_directory localtime (snd r2) (i + 1)
                      (cd_size + PICOZIP__CD_HEADER_SIZE + unat (filename_len e)
                       + unat (extra_field_len e) + unat (comment_len e))
                    = Inr (PICOZIP_OK, f', cd')
           \<and> write_cb f' = write_cb (snd r2) \<and> length (scratch f') = length (scratch (snd r2))"
      using ok1 ok2 w3 l3 o3 s3
      unfolding r1_def r2_def
      by (intro "1.IH" [OF True le refl refl _ refl]) simp_all
    then obtain f' cd' where
      rec: "central_directory localtime (snd r2) (i + 1)
              (cd_size + PICOZIP__CD_HEADER_SIZE + unat (filename_len e)
               + unat (extra_field_len e) + unat (comment_len e))
            = Inr (PICOZIP_OK, f', cd')"
      and fr: "write_cb f' = write_cb g" "length (scratch f') = length (scratch g)"
      by (auto simp add: fb)
    have "central_directory localtime g i cd_size = Inr (PICOZIP_OK, f', cd')"
      using True le ok1 ok2 rec
      unfolding r1_def r2_def
      by (subst central_directory.simps) (simp add: Let_def)
    with fr show ?thesis by blast
  qed
qed

lemma end_ex_accepted:
  assumes w: "\<forall>u bs. fst (write_cb f u bs) = length bs"
    and ld: "\<forall>j < num_entries f. load_entry f j = Inr (deref f j)"
    and eok: "list_all entry_ok (ledger f)"
    and scr: "46 \<le> length (scratch f)"
    and vc: "length (buf_bytes c) = buf_len c"
  shows "\<exists>f'. picozip_end_ex localtime (Some f) c = Inr (PICOZIP_OK, Some f')"
proof -
  from vc have valid: "\<not> (buf_len c \<noteq> 0 \<and> is_null c)" by (simp add: buf_valid_iff)
  from eok have eok': "\<forall>j. 0 \<le> j \<and> j < num_entries f \<longrightarrow> entry_ok (deref f j)"
    by (simp add: list_all_iff ledger_deref)
  from ld have ld': "\<forall>j. 0 \<le> j \<and> j < num_entries f \<longrightarrow> load_entry f j = Inr (deref f j)"
    by simp
  from central_directory_accepted [OF w ld' eok' scr, of localtime 0] obtain fa cds
    where loop: "central_directory localtime f 0 0 = Inr (PICOZIP_OK, fa, cds)"
      and wa: "write_cb fa = write_cb f" and sa: "length (scratch fa) = length (scratch f)"
    by blast
  let ?s1 = "eocd_scratch (num_entries fa) cds (offset f) (buf_len c) (scratch fa)"
  let ?fb = "fa\<lparr>scratch := ?s1\<rparr>"
  have wb: "\<forall>u bs. fst (write_cb ?fb u bs) = length bs" using w wa by simp
  have "22 \<le> length ?s1" using scr sa by simp
  from FLUSH_accepted [OF wb this] obtain u1
    where fl1: "PICOZIP__FLUSH ?fb ?s1 22 = (True, ?fb\<lparr>userdata := u1, offset := offset ?fb + 22\<rparr>)"
    by blast
  let ?fc = "?fb\<lparr>userdata := u1, offset := offset ?fb + 22\<rparr>"
  have wc: "\<forall>u bs. fst (write_cb ?fc u bs) = length bs" using w wa by simp
  from FLUSH_accepted [OF wc, of "buf_len c" "buf_bytes c"] vc obtain u2
    where fl2: "PICOZIP__FLUSH ?fc (buf_bytes c) (buf_len c)
                = (True, ?fc\<lparr>userdata := u2, offset := offset ?fc + buf_len c\<rparr>)"
    by auto
  show ?thesis
    using valid loop fl1 fl2
    by (simp add: picozip_end_ex_def Let_def PICOZIP__EOCD_SIZE_def)
qed

text \<open>The same add, again and again, while the pointer array has room.\<close>

lemma adds_accepted:
  assumes "\<forall>u n. fst (alloc_cb f u n)"
    and "\<forall>u bs. fst (write_cb f u bs) = length bs"
    and "size_v (entries f) + sizeof_entry_ptr \<le> cap (entries f)"
    and "num_entries f + k \<le> length (data (entries f))"
    and "30 \<le> length (scratch f)"
    and vd: "length (buf_bytes dat) = buf_len dat" and vc: "length (buf_bytes c) = buf_len c"
  shows "\<exists>f'. add_entries localtime f (replicate k (p, Known dat mtime, c))
               = Inr (PICOZIP_OK, Some f')"
  using assms(1-5)
proof (induction k arbitrary: f)
  case 0
  then show ?case by simp
next
  case (Suc k)
  from Suc.prems(4) have lt: "num_entries f < length (data (entries f))" by simp
  from mem_ex_accepted [OF Suc.prems(1,2,3) lt Suc.prems(5) vd vc, of localtime p mtime]
  obtain f1 where a: "picozip_new_entry_mem_ex localtime (Some f) (Some p) dat mtime c
                      = Inr (PICOZIP_OK, Some f1)"
    by blast
  from mem_ex_OK(1) [OF a, of "\<lambda>u. []"] Suc.prems(3) obtain u k1
    where f1: "f1 = f\<lparr>entries := (entries f)\<lparr>data := (data (entries f))
                           [num_entries f := Entry (mem_entry (length p + buf_len c + 9)
                                                       (offset f) p dat mtime c)]\<rparr>,
                       userdata := u, num_entries := Suc (num_entries f), offset := k1,
                       scratch := local_header_scratch localtime
                                    (mem_entry (length p + buf_len c + 9) (offset f) p dat mtime c)
                                    (scratch f)\<rparr>"
    by auto
  have "\<exists>f'. add_entries localtime f1 (replicate k (p, Known dat mtime, c))
               = Inr (PICOZIP_OK, Some f')"
    using Suc.prems by (intro Suc.IH) (simp_all add: f1)
  then show ?case using a by (simp add: add_entry_def)
qed

section \<open>The example run\<close>

lemma layout_two_requests:
  "layout localtime_utc 0 two_requests
   = [(0, [0x61], src_a, NULL 0), (41, [0x62], src_s, NULL 0)]"
  by (simp add: two_requests_def length_on_disk length_trailer src_a_def src_s_def content_def)

lemma length_on_disk_two_requests:
  "length (on_disk localtime_utc (0, [0x61], src_a, NULL 0)) = 41"
  "length (on_disk localtime_utc (41, [0x62], src_s, NULL 0)) = 57"
  by (simp_all add: length_on_disk length_trailer src_a_def src_s_def content_def)

lemma slack_session_fields:
  "offset (slack_session k) = 0" "num_entries (slack_session k) = 0"
  "userdata (slack_session k) = []" "ledger (slack_session k) = []"
  by (simp_all add: slack_session_def ledger_def)

lemma ledger_two_files:
  "ledger two_files
   = [final_entry 0 [0x61] src_a (NULL 0), final_entry 41 [0x62] src_s (NULL 0)]"
  by (simp add: ledger_def two_files_def deref_def numeral_2_eq_2)

lemma add_no_requests: "add_entries localtime f [] = Inr (PICOZIP_OK, Some f)"
  by simp

lemma new_session_fields:
  "offset (new_session a w) = 0" "num_entries (new_session a w) = 0"
  "mem (userdata (new_session a w)) = []"
  by (simp_all add: new_session_def)

lemma length_central_directory_two_files:
  "length (central_directory_bytes localtime_utc (ledger two_files)) = 112"
  by (simp add: ledger_two_files central_directory_bytes_def central_record_def
      final_entry_fields header_entry_fields header_entry_metadata)

lemma end_two_files:
  "picozip_end_ex localtime_utc (Some two_files) (NULL 0)
   = Inr (PICOZIP_OK, Some (sure_finalized two_files))"
  by (simp add: picozip_end_ex_def central_directory.simps sure_finalized_def ledger_def
      central_directory_bytes_def central_record_def take_central_header_scratch
      take_eocd_scratch two_files_def sure_write_def model_defs example_defs src_a_def src_s_def
      upt_rec)

lemma userdata_sure_finalized:
  "userdata (sure_finalized f)
   = userdata f @ central_directory_bytes localtime_utc (ledger f)
     @ eocd (num_entries f) (length (central_directory_bytes localtime_utc (ledger f)))
         (offset f) 0"
  by (simp add: sure_finalized_def Let_def)

lemma two_files_fields: "offset two_files = 98" "num_entries two_files = 2"
  by (simp_all add: two_files_def)

lemma picozip_new_sure:
  "picozip_new True (Some sure_write) (Some sure_alloc) (Some sure_free) []
   = (PICOZIP_OK, Some sure_session, [])"
  by (simp add: picozip_new_def sure_alloc_def sure_session_def)

lemma sure_callbacks:
  "\<forall>u n. fst (sure_alloc u n)" "\<forall>u bs. fst (sure_write u bs) = length bs"
  by (simp_all add: sure_alloc_def sure_write_def)

lemma sure_session_callbacks:
  "alloc_cb sure_session = sure_alloc" "write_cb sure_session = sure_write"
  by (simp_all add: sure_session_def)

lemma add_empty_run: "add_entries localtime f [] = Inr (PICOZIP_OK, Some f)"
  by simp

lemma reference_crc32_one_byte: "reference_crc32 [1] = 0xA505DF1B"
  apply (simp only: reference_crc32_def fold_simps o_apply)
  apply (simp add: reference_crc32_byte_def funpow8 crc_shift_def)
  done

section \<open>Finalizing after a run of adds\<close>

lemma observes_cong:
  assumes "alloc_cb g = alloc_cb f" "write_cb g = write_cb f" "free_cb g = free_cb f"
  shows "observes g out = observes f out"
  by (simp add: observes_def assms)

lemma length_central_directory_bytes:
  assumes "list_all entry_ok es"
  shows "length (central_directory_bytes localtime es)
         = sum_list (map (\<lambda>e. 46 + unat (filename_len e) + unat (extra_field_len e)
                                 + unat (comment_len e)) es)"
  using assms
  by (induction es) (simp_all add: central_directory_bytes_def length_central_record)

lemma eocd_no_entries:
  "eocd 0 0 0 0 = [0x50, 0x4b, 0x05, 0x06, 0, 0, 0, 0, 0, 0, 0, 0, 0, 0, 0, 0, 0, 0, 0, 0, 0, 0]"
  by (simp add: eocd_eq le16_def le32_def PICOZIP__EOCD_MAGIC_def)

lemma unat_of_nat_u16_mod: "unat (of_nat n :: u16) = n mod 65536"
  by (simp add: unat_of_nat)

lemma unat_of_nat_u32_mod: "unat (of_nat n :: u32) = n mod 4294967296"
  by (simp add: unat_of_nat)

text \<open>A run of adds from a session without entries, then finalize: what went out.\<close>

lemma end_after_adds:
  assumes n0: "num_entries f0 = 0"
    and adds: "add_entries localtime f0 xs = Inr (PICOZIP_OK, Some f)"
    and fin: "picozip_end_ex localtime (Some f) c = Inr (PICOZIP_OK, Some f')"
    and obs: "observes f0 out" and scr: "length (scratch f0) = 64"
  shows "ledger f = map ledger_entry (layout localtime (offset f0) xs)"
    and "num_entries f = length xs"
    and "list_all entry_ok (ledger f)"
    and "observes f out" and "length (scratch f) = 64"
    and "offset f = offset f0
           + length (concat (map (on_disk localtime) (layout localtime (offset f0) xs)))"
    and "out (userdata f) = out (userdata f0)
           @ concat (map (on_disk localtime) (layout localtime (offset f0) xs))"
    and "out (userdata f')
         = out (userdata f) @ central_directory_bytes localtime (ledger f)
           @ eocd (length xs) (length (central_directory_bytes localtime (ledger f))) (offset f)
               (buf_len c)
           @ buf_bytes c"
    and "length (buf_bytes c) = buf_len c"
    and "offset f' = offset f + length (central_directory_bytes localtime (ledger f)) + 22
                     + buf_len c"
    and "\<forall>j < num_entries f. load_entry f j = Inr (deref f j)"
proof -
  note t = add_entries_OK [OF adds, of out]
  have "ledger f0 = []" by (simp add: ledger_def n0)
  then show l: "ledger f = map ledger_entry (layout localtime (offset f0) xs)"
    by (simp add: add_entries_ledger [OF adds])
  show n: "num_entries f = length xs" using t by (simp add: n0)
  have "list_all (\<lambda>(p, src, c). length (buf_bytes c) = buf_len c) xs" using t by blast
  then show eok: "list_all entry_ok (ledger f)" unfolding l by (rule ledger_entry_ok)
  have "alloc_cb f = alloc_cb f0" "write_cb f = write_cb f0" "free_cb f = free_cb f0"
    using t by blast+
  then have "observes f out = observes f0 out" by (rule observes_cong)
  with obs show o: "observes f out" by simp
  show s: "length (scratch f) = 64" using t scr by simp
  show "offset f = offset f0
           + length (concat (map (on_disk localtime) (layout localtime (offset f0) xs)))"
    using t by blast
  show "out (userdata f) = out (userdata f0)
           @ concat (map (on_disk localtime) (layout localtime (offset f0) xs))"
    using t obs scr by simp
  from s have s46: "46 \<le> length (scratch f)" by simp
  from eok have eok': "\<forall>e \<in> set (ledger f). entry_ok e" by (simp add: list_all_iff)
  from end_ex_OK(1) [OF fin o s46 eok'] obtain u sc
    where f': "f' = f\<lparr>userdata := u,
                      offset := offset f + length (central_directory_bytes localtime (ledger f))
                                + 22 + buf_len c,
                      scratch := sc\<rparr>"
      and out: "out u = out (userdata f) @ central_directory_bytes localtime (ledger f)
                  @ eocd (num_entries f) (length (central_directory_bytes localtime (ledger f)))
                      (offset f) (buf_len c)
                  @ buf_bytes c"
    by blast
  from out show "out (userdata f')
         = out (userdata f) @ central_directory_bytes localtime (ledger f)
           @ eocd (length xs) (length (central_directory_bytes localtime (ledger f))) (offset f)
               (buf_len c)
           @ buf_bytes c"
    by (simp add: f' n)
  show "length (buf_bytes c) = buf_len c" using end_ex_OK(2) [OF fin o s46 eok'] .
  show "offset f' = offset f + length (central_directory_bytes localtime (ledger f)) + 22
                     + buf_len c"
    by (simp add: f')
  show "\<forall>j < num_entries f. load_entry f j = Inr (deref f j)"
    using end_ex_OK(3) [OF fin o s46 eok'] .
qed

text \<open>A run of adds leaves every entry where finalize can load it.\<close>

lemma add_entries_loadable:
  assumes n0: "num_entries f0 = 0"
    and adds: "add_entries localtime f0 xs = Inr (PICOZIP_OK, Some f)"
  shows "\<forall>j < num_entries f. load_entry f j = Inr (deref f j)"
proof (intro allI impI)
  fix j assume j: "j < num_entries f"
  note t = add_entries_OK [OF adds, of "\<lambda>u. []"]
  from t n0 have n: "num_entries f = length xs" by simp
  with j have ne: "xs \<noteq> []" by auto
  with t have "num_entries f \<le> length (data (entries f))" by blast
  with j have b: "j < length (data (entries f))" by simp
  from t j n n0 have "data (entries f) ! (0 + j)
                      = Entry (ledger_entry (layout localtime (offset f0) xs ! j))"
    by auto
  with b show "load_entry f j = Inr (deref f j)" by (simp add: load_entry_def deref_def)
qed

lemma drop_tail: "length E = n \<Longrightarrow> drop (length (A @ E) - n) (A @ E) = E"
  by simp

text \<open>
  \<^verbatim>\<open>k\<close> adds of the same file from memory to a session over the callbacks that never fail,
  whose pointer array holds \<^verbatim>\<open>k\<close> pointers, then finalize: every call succeeds, and the last
  22 bytes sent are the end record for \<^verbatim>\<open>k\<close> entries.
\<close>

lemma slack_run:
  fixes p d :: "u8 list" and k :: nat and mt :: int
  defines "R \<equiv> finalize_after localtime_utc (slack_session k)
                  (replicate k (p, Known (Ptr d) mt, NULL 0)) (NULL 0)"
  shows "status_of R = Some PICOZIP_OK"
    and "\<exists>cd_size cd_offset.
           drop (length (userdata_of [] R) - 22) (userdata_of [] R) = eocd k cd_size cd_offset 0"
proof -
  let ?S = "slack_session k"
  let ?xs = "replicate k (p, Known (Ptr d) mt, NULL 0)"
  have room: "size_v (entries ?S) + sizeof_entry_ptr \<le> cap (entries ?S)"
    by (simp add: slack_session_def)
  have slots: "num_entries ?S + k \<le> length (data (entries ?S))"
    by (simp add: slack_session_def)
  have scr: "30 \<le> length (scratch ?S)" by (simp add: scratch_slack_session)
  from adds_accepted [OF sure_slack_session room slots scr, of "Ptr d" "NULL 0" localtime_utc p mt]
  obtain f where adds: "add_entries localtime_utc ?S ?xs = Inr (PICOZIP_OK, Some f)"
    by auto
  have n0: "num_entries ?S = 0" by (simp add: slack_session_fields)
  note t = add_entries_OK [OF adds, of "\<lambda>u. u"]
  have w: "\<forall>u bs. fst (write_cb f u bs) = length bs"
    using t sure_slack_session(2) [of k] by simp
  have ld: "\<forall>j < num_entries f. load_entry f j = Inr (deref f j)"
    using n0 adds by (rule add_entries_loadable)
  have "ledger ?S = []" by (simp add: slack_session_fields)
  then have l: "ledger f = map ledger_entry (layout localtime_utc (offset ?S) ?xs)"
    by (simp add: add_entries_ledger [OF adds])
  have "list_all (\<lambda>(p, src, c). length (buf_bytes c) = buf_len c) ?xs" using t by blast
  then have eok: "list_all entry_ok (ledger f)" unfolding l by (rule ledger_entry_ok)
  have s46: "46 \<le> length (scratch f)" using t by (simp add: scratch_slack_session)
  from end_ex_accepted [OF w ld eok s46, of "NULL 0" localtime_utc] obtain f'
    where fin: "picozip_end_ex localtime_utc (Some f) (NULL 0) = Inr (PICOZIP_OK, Some f')"
    by auto
  have R: "R = Inr (PICOZIP_OK, Some f')"
    by (simp add: R_def finalize_after_def adds fin)
  show "status_of R = Some PICOZIP_OK" by (simp add: R status_of_def)
  from end_after_adds(8) [OF n0 adds fin observes_slack_session scratch_slack_session]
  have "userdata f' = (userdata f @ central_directory_bytes localtime_utc (ledger f))
          @ eocd k (length (central_directory_bytes localtime_utc (ledger f))) (offset f) 0"
    by simp
  then have "drop (length (userdata f') - 22) (userdata f')
             = eocd k (length (central_directory_bytes localtime_utc (ledger f))) (offset f) 0"
    by (simp only: drop_tail [OF length_eocd])
  then show "\<exists>cd_size cd_offset.
      drop (length (userdata_of [] R) - 22) (userdata_of [] R) = eocd k cd_size cd_offset 0"
    unfolding R by (auto simp add: userdata_of_def)
qed

section \<open>One more add, then finalize\<close>

lemma add_entries_snoc:
  assumes "add_entries localtime f0 xs = Inr (PICOZIP_OK, Some f)"
    and "add_entry localtime (Some f) (Some p) src c = Inr (PICOZIP_OK, Some f1)"
  shows "add_entries localtime f0 (xs @ [(p, src, c)]) = Inr (PICOZIP_OK, Some f1)"
  using assms
proof (induction xs arbitrary: f0)
  case Nil
  then show ?case by simp
next
  case (Cons x xs)
  obtain q s d where x: "x = (q, s, d)" by (cases x)
  from add_entries_Cons [OF Cons.prems(1) [unfolded x]] obtain g
    where a: "add_entry localtime (Some f0) (Some q) s d = Inr (PICOZIP_OK, Some g)"
      and r: "add_entries localtime g xs = Inr (PICOZIP_OK, Some f)"
    by blast
  from Cons.IH [OF r Cons.prems(2)] a show ?case by (simp add: x)
qed

lemma layout_snoc:
  "layout localtime off (xs @ [x])
   = layout localtime off xs
     @ [(off + length (concat (map (on_disk localtime) (layout localtime off xs))), x)]"
  by (induction xs arbitrary: off) (simp_all add: add.assoc)

text \<open>
  A run of adds from a session without entries, one more add, then finalize: what the
  last add and finalize sent, and the entry the add left in the ledger.
\<close>

lemma add_then_end:
  assumes n0: "num_entries f0 = 0"
    and adds: "add_entries localtime f0 xs = Inr (PICOZIP_OK, Some f)"
    and add: "add_entry localtime (Some f) (Some p) src c = Inr (PICOZIP_OK, Some f1)"
    and obs: "observes f0 out" and scr: "length (scratch f0) = 64"
  shows "num_entries f = length xs"
    and "deref f1 (num_entries f) = final_entry (offset f) p src c"
    and "ledger f1 = ledger f @ [final_entry (offset f) p src c]"
    and "out (userdata f1)
         = out (userdata f) @ local_record localtime (header_entry (offset f) p src c)
           @ content src @ trailer (offset f) p src c"
    and "length (buf_bytes c) = buf_len c"
    and "picozip_end_ex localtime (Some f1) c2 = Inr (PICOZIP_OK, Some f2) \<Longrightarrow>
         out (userdata f2)
         = out (userdata f1) @ central_directory_bytes localtime (ledger f)
           @ central_record localtime (final_entry (offset f) p src c)
           @ eocd (length xs + 1) (length (central_directory_bytes localtime (ledger f1)))
               (offset f1) (buf_len c2)
           @ buf_bytes c2"
    and "offset f1 = offset f + length (local_record localtime (header_entry (offset f) p src c))
                     + length (content src) + length (trailer (offset f) p src c)"
proof -
  note t = add_entries_OK [OF adds, of out]
  show n: "num_entries f = length xs" using t n0 by simp
  show d: "deref f1 (num_entries f) = final_entry (offset f) p src c"
    using add by (rule add_entry_deref)
  have all: "add_entries localtime f0 (xs @ [(p, src, c)]) = Inr (PICOZIP_OK, Some f1)"
    using adds add by (rule add_entries_snoc)
  have l0: "ledger f0 = []" by (simp add: ledger_def n0)
  have lf: "ledger f = map ledger_entry (layout localtime (offset f0) xs)"
    using add_entries_ledger [OF adds] l0 by simp
  have off: "offset f = offset f0
               + length (concat (map (on_disk localtime) (layout localtime (offset f0) xs)))"
    using t by blast
  show l1: "ledger f1 = ledger f @ [final_entry (offset f) p src c]"
    using add_entries_ledger [OF all] l0 by (simp add: layout_snoc lf off)
  have of: "observes f out"
  proof -
    have "alloc_cb f = alloc_cb f0" "write_cb f = write_cb f0" "free_cb f = free_cb f0"
      using t by blast+
    then have "observes f out = observes f0 out" by (rule observes_cong)
    with obs show ?thesis by simp
  qed
  have sf: "30 \<le> length (scratch f)" using t scr by simp
  from add_entry_OK(1) [OF add, of out] of sf obtain v u s
    where f1: "f1 = f\<lparr>entries := v, userdata := u, num_entries := Suc (num_entries f),
                       offset := offset f + 30 + unat (of_nat (length p) :: u16) + 9
                                 + length (content src) + length (trailer (offset f) p src c),
                       scratch := s\<rparr>"
      and out1: "out u = out (userdata f) @ local_record localtime (header_entry (offset f) p src c)
                   @ content src @ trailer (offset f) p src c"
    by auto
  from out1 show "out (userdata f1)
         = out (userdata f) @ local_record localtime (header_entry (offset f) p src c)
           @ content src @ trailer (offset f) p src c"
    by (simp add: f1)
  show vc: "length (buf_bytes c) = buf_len c" using add by (rule add_entry_OK(2))
  have "length (local_record localtime (header_entry (offset f) p src c))
        = 30 + unat (of_nat (length p) :: u16) + 9"
    using unat_of_nat_u16_le [of "length p"] vc
    by (simp add: local_record_def header_entry_fields header_entry_metadata)
  then show "offset f1 = offset f
                 + length (local_record localtime (header_entry (offset f) p src c))
                 + length (content src) + length (trailer (offset f) p src c)"
    by (simp add: f1)
  show "out (userdata f2)
         = out (userdata f1) @ central_directory_bytes localtime (ledger f)
           @ central_record localtime (final_entry (offset f) p src c)
           @ eocd (length xs + 1) (length (central_directory_bytes localtime (ledger f1)))
               (offset f1) (buf_len c2)
           @ buf_bytes c2"
    if fin: "picozip_end_ex localtime (Some f1) c2 = Inr (PICOZIP_OK, Some f2)"
    using end_after_adds(8) [OF n0 all fin obs scr]
    by (simp add: l1 central_directory_bytes_def)
qed

section \<open>One add from memory to a new session, then finalize\<close>

lemma sure_session_fields:
  "offset sure_session = 0" "num_entries sure_session = 0" "userdata sure_session = []"
  "ledger sure_session = []" "length (scratch sure_session) = 64"
  "write_cb sure_session = sure_write" "alloc_cb sure_session = sure_alloc"
  by (simp_all add: sure_session_def ledger_def PICOZIP__SCRATCH_BUFFER_SIZE_def)

lemma observes_sure_session: "observes sure_session (\<lambda>u. u)"
  by (rule observes_sure) (simp_all add: sure_session_def)

text \<open>
  Over callbacks that never fail the add and the finalize succeed, and the output is the
  local record, the content, the central record and the end record.
\<close>

lemma sure_first_run:
  fixes p :: "u8 list" and dat c :: buf and mt :: int
  assumes vd: "length (buf_bytes dat) = buf_len dat" and vc: "length (buf_bytes c) = buf_len c"
  defines "R \<equiv> finalize_after localtime_utc sure_session [(p, Known dat mt, c)] (NULL 0)"
    and "h \<equiv> header_entry 0 p (Known dat mt) c"
  shows "status_of R = Some PICOZIP_OK"
    and "\<exists>E. userdata_of [] R
             = local_record localtime_utc h @ buf_bytes dat @ central_record localtime_utc h @ E"
    and "length (local_record localtime_utc h) = 30 + unat (of_nat (length p) :: u16) + 9"
proof -
  let ?src = "Known dat mt"
  from mem_ex_first_accepted [OF picozip_new_sure _ _ vd vc, of localtime_utc p mt]
  obtain g1 where m: "picozip_new_entry_mem_ex localtime_utc (Some sure_session) (Some p) dat mt c
                      = Inr (PICOZIP_OK, Some g1)"
    by (auto simp add: sure_session_fields sure_callbacks)
  then have add: "add_entry localtime_utc (Some sure_session) (Some p) ?src c
                  = Inr (PICOZIP_OK, Some g1)"
    by (simp add: add_entry_def)
  then have adds: "add_entries localtime_utc sure_session [(p, ?src, c)]
                   = Inr (PICOZIP_OK, Some g1)"
    by simp
  note t = add_then_end [OF sure_session_fields(2) add_empty_run add observes_sure_session
      sure_session_fields(5), unfolded sure_session_fields]
  have fe: "final_entry 0 p ?src c = h" by (simp add: final_entry_def h_def)
  note o = add_entries_OK [OF adds, of "\<lambda>u. u"]
  have w: "\<forall>u bs. fst (write_cb g1 u bs) = length bs"
    using o by (simp add: sure_session_fields sure_callbacks)
  have ld: "\<forall>j < num_entries g1. load_entry g1 j = Inr (deref g1 j)"
    using sure_session_fields(2) adds by (rule add_entries_loadable)
  have eok: "list_all entry_ok (ledger g1)"
    using t(3) by (simp add: final_entry_ok [OF vc])
  have s46: "46 \<le> length (scratch g1)" using o by (simp add: sure_session_fields)
  from end_ex_accepted [OF w ld eok s46, of "NULL 0" localtime_utc] obtain g2
    where fin: "picozip_end_ex localtime_utc (Some g1) (NULL 0) = Inr (PICOZIP_OK, Some g2)"
    by auto
  have R: "R = Inr (PICOZIP_OK, Some g2)"
    by (simp add: R_def finalize_after_def add fin)
  show "status_of R = Some PICOZIP_OK" by (simp add: R status_of_def)
  from t(4) have u1: "userdata g1 = local_record localtime_utc h @ buf_bytes dat"
    by (simp add: h_def content_def trailer_def)
  from t(6) [OF fin] have "userdata g2
      = userdata g1 @ central_record localtime_utc h
        @ eocd 1 (length (central_directory_bytes localtime_utc (ledger g1))) (offset g1) 0"
    by (simp add: fe central_directory_bytes_def)
  then show "\<exists>E. userdata_of [] R
             = local_record localtime_utc h @ buf_bytes dat @ central_record localtime_utc h @ E"
    by (simp add: R userdata_of_def u1)
  show "length (local_record localtime_utc h) = 30 + unat (of_nat (length p) :: u16) + 9"
    using unat_of_nat_u16_le [of "length p"] vc
    by (simp add: h_def local_record_def header_entry_fields header_entry_metadata)
qed

section \<open>What finalize returns, and what it leaves\<close>

text \<open>
  The loop of \<^verbatim>\<open>picozip_end_ex\<close> over entries that can be loaded ends with \<^verbatim>\<open>PICOZIP_OK\<close>
  or with \<^verbatim>\<open>PICOZIP_EIO\<close>.
\<close>

lemma central_directory_returns:
  assumes "\<forall>j. i \<le> j \<and> j < num_entries f \<longrightarrow> load_entry f j = Inr (deref f j)"
  shows "\<exists>err f' cd'. central_directory localtime f i cd = Inr (err, f', cd')
           \<and> (err = PICOZIP_OK \<or> err = PICOZIP_EIO)"
  using assms
proof (induction localtime f i cd rule: central_directory.induct)
  case (1 localtime g i cd_size)
  show ?case
  proof (cases "i < num_entries g")
    case False
    then show ?thesis by (simp add: central_directory.simps [of localtime g i cd_size])
  next
    case True
    define e where "e = deref g i"
    from "1.prems" True have le: "load_entry g i = Inr e" by (simp add: e_def)
    let ?n = "unat (filename_len e) + unat (extra_field_len e) + unat (comment_len e)"
    let ?f1 = "g\<lparr>scratch := central_header_scratch localtime e (scratch g)\<rparr>"
    define r1 where "r1 = PICOZIP__FLUSH ?f1 (scratch ?f1) PICOZIP__CD_HEADER_SIZE"
    define r2 where "r2 = PICOZIP__FLUSH (snd r1) (metadata e) ?n"
    show ?thesis
    proof (cases "fst r1 \<and> fst r2")
      case False
      then show ?thesis
        using True le unfolding r1_def r2_def
        by (subst central_directory.simps) (auto simp add: Let_def)
    next
      case both: True
      then have ok1: "fst r1" and ok2: "fst r2" by simp_all
      have "PICOZIP__FLUSH ?f1 (scratch ?f1) PICOZIP__CD_HEADER_SIZE = (fst r1, snd r1)"
        by (simp add: r1_def)
      from FLUSH_frame [OF this] have e1: "entries (snd r1) = entries g"
        and n1: "num_entries (snd r1) = num_entries g"
        by auto
      have "PICOZIP__FLUSH (snd r1) (metadata e) ?n = (fst r2, snd r2)"
        by (simp add: r2_def)
      from FLUSH_frame [OF this] e1 n1 have ent: "entries (snd r2) = entries g"
        and num: "num_entries (snd r2) = num_entries g"
        by auto
      have l3: "\<forall>j. i + 1 \<le> j \<and> j < num_entries (snd r2)
                  \<longrightarrow> load_entry (snd r2) j = Inr (deref (snd r2) j)"
        using "1.prems" unfolding load_entry_frame [OF ent] deref_frame [OF ent] num
        by simp
      have "\<exists>err f' cd'. central_directory localtime (snd r2) (i + 1)
                        (cd_size + PICOZIP__CD_HEADER_SIZE + unat (filename_len e)
                         + unat (extra_field_len e) + unat (comment_len e))
                      = Inr (err, f', cd')
               \<and> (err = PICOZIP_OK \<or> err = PICOZIP_EIO)"
        using ok1 ok2 l3
        unfolding r1_def r2_def
        by (intro "1.IH" [OF True le refl refl _ refl]) simp_all
      then obtain err f' cd' where
        rec: "central_directory localtime (snd r2) (i + 1)
                (cd_size + PICOZIP__CD_HEADER_SIZE + unat (filename_len e)
                 + unat (extra_field_len e) + unat (comment_len e))
              = Inr (err, f', cd')"
        and st: "err = PICOZIP_OK \<or> err = PICOZIP_EIO"
        by blast
      have "central_directory localtime g i cd_size = Inr (err, f', cd')"
        using True le ok1 ok2 rec
        unfolding r1_def r2_def
        by (subst central_directory.simps) (simp add: Let_def)
      with st show ?thesis by blast
    qed
  qed
qed

text \<open>
  \<^verbatim>\<open>picozip_end_ex\<close> on a session whose entries can be loaded: \<^verbatim>\<open>PICOZIP_EINVAL\<close> for a
  null comment of nonzero length, and \<^verbatim>\<open>PICOZIP_OK\<close> or \<^verbatim>\<open>PICOZIP_EIO\<close> otherwise.
\<close>

lemma end_ex_returns:
  assumes "\<forall>j < num_entries f. load_entry f j = Inr (deref f j)"
  shows "buf_len c \<noteq> 0 \<and> is_null c
         \<Longrightarrow> status_of (picozip_end_ex localtime (Some f) c) = Some PICOZIP_EINVAL"
    and "\<not> (buf_len c \<noteq> 0 \<and> is_null c)
         \<Longrightarrow> status_of (picozip_end_ex localtime (Some f) c) = Some PICOZIP_OK
             \<or> status_of (picozip_end_ex localtime (Some f) c) = Some PICOZIP_EIO"
proof -
  show "status_of (picozip_end_ex localtime (Some f) c) = Some PICOZIP_EINVAL"
    if "buf_len c \<noteq> 0 \<and> is_null c"
    using that by (simp add: picozip_end_ex_def status_of_def)
  from assms have "\<forall>j. 0 \<le> j \<and> j < num_entries f \<longrightarrow> load_entry f j = Inr (deref f j)"
    by simp
  from central_directory_returns [OF this, of localtime 0] obtain err fa cds
    where loop: "central_directory localtime f 0 0 = Inr (err, fa, cds)"
      and st: "err = PICOZIP_OK \<or> err = PICOZIP_EIO"
    by blast
  show "status_of (picozip_end_ex localtime (Some f) c) = Some PICOZIP_OK
        \<or> status_of (picozip_end_ex localtime (Some f) c) = Some PICOZIP_EIO"
    if "\<not> (buf_len c \<noteq> 0 \<and> is_null c)"
    using that loop st
    by (auto simp add: picozip_end_ex_def status_of_def Let_def split: prod.splits)
qed

text \<open>A finalize that succeeds changes the output, the offset and the scratch buffer only.\<close>

lemma end_ex_keeps:
  assumes ok: "picozip_end_ex localtime (Some f) c = Inr (PICOZIP_OK, Some f')"
    and obs: "observes f out" and scr: "46 \<le> length (scratch f)"
    and eok: "list_all entry_ok (ledger f)"
  shows "entries f' = entries f" and "num_entries f' = num_entries f"
    and "ledger f' = ledger f" and "write_cb f' = write_cb f"
    and "observes f' out" and "length (scratch f') = length (scratch f)"
proof -
  from eok have eok': "\<forall>e \<in> set (ledger f). entry_ok e" by (simp add: list_all_iff)
  from end_ex_OK(1) [OF ok obs scr eok'] obtain u k s
    where f': "f' = f\<lparr>userdata := u, offset := k, scratch := s\<rparr>"
      and ls: "length s = length (scratch f)"
    by blast
  show "entries f' = entries f" "num_entries f' = num_entries f" "write_cb f' = write_cb f"
    by (simp_all add: f')
  show "ledger f' = ledger f" by (simp add: ledger_def deref_def f')
  show "observes f' out" using obs by (simp add: observes_def f')
  show "length (scratch f') = length (scratch f)" using ls by (simp add: f')
qed

section \<open>Header offsets\<close>

text \<open>
  C2. Take any run of adds, from memory or from a stream, that all succeed on one session.
  The bytes the run sends are the on-disk bytes of its entries one after the other, and
  the write offset of the session moves by exactly their number: a session that starts
  with its offset equal to the bytes sent so far ends that way. The header offset
  recorded for each entry is the offset at which its bytes start. The on-disk size of an
  entry is 30 bytes, its filename, its extra field and its content, and 16 bytes more
  when bit 3 of its flags is set; the header offset recorded for the entry after it is
  its own header offset plus that size, in the 32 bits of the field, and as numbers when
  the archive fits 32-bit offsets.
\<close>

theorem header_offsets_chain:
  assumes "add_entries localtime f xs = Inr (PICOZIP_OK, Some f')"
    and "observes f out" and "length (scratch f) = 64"
  shows "(let L = layout localtime (offset f) xs;
              E = drop (num_entries f) (ledger f')
          in length E = length xs
             \<and> out (userdata f') = out (userdata f) @ concat (map (on_disk localtime) L)
             \<and> offset f' = offset f + length (concat (map (on_disk localtime) L))
             \<and> (offset f = length (out (userdata f))
                  \<longrightarrow> offset f' = length (out (userdata f')))
             \<and> map header_offset E = map (\<lambda>(off, x). of_nat off) L
             \<and> list_all2
                  (\<lambda>e (off, p, src, c).
                     length (on_disk localtime (off, p, src, c))
                     = 30 + unat (filename_len e) + unat (extra_field_len e)
                       + length (content src) + (if bit (flags e) 3 then 16 else 0))
                  E L
             \<and> (\<forall>i. Suc i < length xs \<longrightarrow>
                   header_offset (E ! Suc i)
                   = header_offset (E ! i) + of_nat (length (on_disk localtime (L ! i))))
             \<and> (\<forall>i. Suc i < length xs \<and> offset f' < 4294967296 \<longrightarrow>
                   unat (header_offset (E ! Suc i))
                   = unat (header_offset (E ! i)) + length (on_disk localtime (L ! i))))"
proof -
  define L where "L = layout localtime (offset f) xs"
  define E where "E = drop (num_entries f) (ledger f')"
  note t = add_entries_OK [OF assms(1), of out]
  have valid: "list_all (\<lambda>(p, src, c). length (buf_bytes c) = buf_len c) xs" using t by blast
  have "length (ledger f) = num_entries f" by (simp add: ledger_def)
  then have E: "E = map ledger_entry L"
    unfolding E_def L_def add_entries_ledger [OF assms(1)] by simp
  have 1: "length E = length xs" by (simp add: E L_def)
  have 2: "out (userdata f') = out (userdata f) @ concat (map (on_disk localtime) L)"
    using t assms(2,3) unfolding L_def by simp
  have 3: "offset f' = offset f + length (concat (map (on_disk localtime) L))"
    using t unfolding L_def by blast
  have 4: "offset f = length (out (userdata f)) \<longrightarrow> offset f' = length (out (userdata f'))"
    using 2 3 by simp
  have 5: "map header_offset E = map (\<lambda>(off, x). of_nat off) L"
    unfolding E
    by (induction L)
       (auto simp add: final_entry_fields header_entry_fields)
  have size: "length (on_disk localtime (off, p, src, c))
              = 30 + unat (filename_len (ledger_entry (off, p, src, c)))
                + unat (extra_field_len (ledger_entry (off, p, src, c)))
                + length (content src)
                + (if bit (flags (ledger_entry (off, p, src, c))) 3 then 16 else 0)"
    if "length (buf_bytes c) = buf_len c" for off p src c
  proof -
    have "bit (flags (final_entry off p src c)) 3 \<longleftrightarrow> (case src of Known dat mtime \<Rightarrow> False
                                                       | Streamed fp \<Rightarrow> True)"
      by (simp add: final_entry_fields header_entry_content bit_numeral_Bit0_Suc_iff
          bit_numeral_simps numeral_3_eq_3 split: source.split)
    then show ?thesis
      by (simp add: length_on_disk [OF that] length_trailer final_entry_fields
          header_entry_fields split: source.split)
  qed
  have vL: "list_all (\<lambda>(off, p, src, c). length (buf_bytes c) = buf_len c) L"
    using valid unfolding L_def
  proof (induction xs arbitrary: f)
    case Nil
    then show ?case by simp
  next
    case (Cons x xs)
    obtain p src c where "x = (p, src, c)" by (cases x)
    with Cons.prems Cons.IH [of "f\<lparr>offset := offset f + length (on_disk localtime (offset f, x))\<rparr>"]
    show ?case by simp
  qed
  have 6: "list_all2
             (\<lambda>e (off, p, src, c).
                length (on_disk localtime (off, p, src, c))
                = 30 + unat (filename_len e) + unat (extra_field_len e)
                  + length (content src) + (if bit (flags e) 3 then 16 else 0))
             E L"
    unfolding E using vL
  proof (induction L)
    case Nil
    then show ?case by simp
  next
    case (Cons y ys)
    obtain off p src c where y: "y = (off, p, src, c)" by (cases y)
    with Cons show ?case using size [of c off p src] by simp
  qed
  have step: "fst (L ! Suc i) = fst (L ! i) + length (on_disk localtime (L ! i))"
    if "Suc i < length xs" for i
    using that unfolding L_def
  proof (induction xs arbitrary: f i)
    case Nil
    then show ?case by simp
  next
    case (Cons x xs)
    show ?case
    proof (cases i)
      case 0
      with Cons.prems obtain y ys where "xs = y # ys" by (cases xs) simp_all
      with 0 show ?thesis by simp
    next
      case (Suc k)
      with Cons.prems have "Suc k < length xs" by simp
      from Cons.IH [OF this,
          of "f\<lparr>offset := offset f + length (on_disk localtime (offset f, x))\<rparr>"]
      show ?thesis by (simp add: Suc)
    qed
  qed
  have ho: "header_offset (E ! i) = of_nat (fst (L ! i))" if "i < length xs" for i
  proof -
    from that have i: "i < length L" by (simp add: L_def)
    obtain off p src c where y: "L ! i = (off, p, src, c)" by (cases "L ! i")
    with i show ?thesis by (simp add: E final_entry_fields header_entry_fields)
  qed
  have 7: "header_offset (E ! Suc i)
           = header_offset (E ! i) + of_nat (length (on_disk localtime (L ! i)))"
    if "Suc i < length xs" for i
    using that ho [of i] ho [of "Suc i"] step [OF that] by simp
  have mono: "fst (L ! i) + length (on_disk localtime (L ! i)) \<le> offset f'"
    if "i < length xs" for i
  proof -
    have "fst (layout localtime o1 ys ! i) + length (on_disk localtime (layout localtime o1 ys ! i))
          \<le> o1 + length (concat (map (on_disk localtime) (layout localtime o1 ys)))"
      if "i < length ys" for o1 ys
      using that
    proof (induction ys arbitrary: o1 i)
      case Nil
      then show ?case by simp
    next
      case (Cons y ys)
      show ?case
      proof (cases i)
        case 0
        then show ?thesis by simp
      next
        case (Suc k)
        with Cons.prems have "k < length ys" by simp
        from Cons.IH [OF this, of "o1 + length (on_disk localtime (o1, y))"]
        show ?thesis by (simp add: Suc)
      qed
    qed
    from this [OF that, of "offset f"] show ?thesis by (simp add: 3 L_def)
  qed
  have 8: "unat (header_offset (E ! Suc i))
           = unat (header_offset (E ! i)) + length (on_disk localtime (L ! i))"
    if i: "Suc i < length xs" and small: "offset f' < 4294967296" for i
  proof -
    from i have a: "fst (L ! Suc i) < 4294967296" using mono [of "Suc i"] small by simp
    from i have b: "fst (L ! i) < 4294967296" using mono [of i] small by simp
    from i have "unat (header_offset (E ! Suc i)) = fst (L ! Suc i)"
      using ho [of "Suc i"] a by (simp add: unat_of_nat_u32)
    moreover from i have "unat (header_offset (E ! i)) = fst (L ! i)"
      using ho [of i] b by (simp add: unat_of_nat_u32)
    ultimately show ?thesis using step [OF i] by simp
  qed
  from 1 2 3 4 5 6 7 8 show ?thesis
    unfolding Let_def L_def [symmetric] E_def [symmetric] by blast
qed

text \<open>
  The theorem at the run of the examples on a session whose pointer array holds two
  pointers: the file \<^verbatim>\<open>a\<close> takes 41 bytes from offset 0, the streamed file \<^verbatim>\<open>b\<close> takes 57
  bytes from offset 41, and the session ends at offset 98 with 98 bytes sent.
\<close>

theorem header_offsets_chain_witness:
  "add_entries localtime_utc (slack_session 2) two_requests = Inr (PICOZIP_OK, Some two_files)
   \<and> observes (slack_session 2) (\<lambda>u. u)
   \<and> length (scratch (slack_session 2)) = 64
   \<and> offset (slack_session 2) = length (userdata (slack_session 2))
   \<and> length (ledger two_files) = 2
   \<and> map header_offset (ledger two_files) = [0, 41]
   \<and> map (length \<circ> on_disk localtime_utc) (layout localtime_utc 0 two_requests) = [41, 57]
   \<and> header_offset (ledger two_files ! 1) = header_offset (ledger two_files ! 0) + 41
   \<and> unat (header_offset (ledger two_files ! 1)) = unat (header_offset (ledger two_files ! 0)) + 41
   \<and> userdata two_files
     = concat (map (on_disk localtime_utc) (layout localtime_utc 0 two_requests))
   \<and> offset two_files = 98
   \<and> offset two_files = length (userdata two_files)"
proof -
  note t = header_offsets_chain [OF add_two_requests observes_slack_session
      scratch_slack_session, unfolded Let_def slack_session_fields drop_0 append_Nil]
  have l: "length two_requests = 2" by (simp add: two_requests_def)
  have o: "offset two_files < 4294967296" by (simp add: two_files_def)
  from t have "length (ledger two_files) = length two_requests" by blast
  then have 1: "length (ledger two_files) = 2" by (simp add: l)
  from t have "map header_offset (ledger two_files)
               = map (\<lambda>(off, x). of_nat off) (layout localtime_utc 0 two_requests)"
    by blast
  then have 2: "map header_offset (ledger two_files) = [0, 41]"
    by (simp add: layout_two_requests)
  have 3: "map (length \<circ> on_disk localtime_utc) (layout localtime_utc 0 two_requests) = [41, 57]"
    by (simp add: layout_two_requests length_on_disk_two_requests)
  have s: "Suc 0 < length two_requests" by (simp add: l)
  from t have "\<forall>i. Suc i < length two_requests \<longrightarrow>
      header_offset (ledger two_files ! Suc i)
      = header_offset (ledger two_files ! i)
        + of_nat (length (on_disk localtime_utc (layout localtime_utc 0 two_requests ! i)))"
    by blast
  with s have "header_offset (ledger two_files ! Suc 0)
      = header_offset (ledger two_files ! 0)
        + of_nat (length (on_disk localtime_utc (layout localtime_utc 0 two_requests ! 0)))"
    by blast
  then have 4: "header_offset (ledger two_files ! 1) = header_offset (ledger two_files ! 0) + 41"
    by (simp add: layout_two_requests length_on_disk_two_requests)
  from t have "\<forall>i. Suc i < length two_requests \<and> offset two_files < 4294967296 \<longrightarrow>
      unat (header_offset (ledger two_files ! Suc i))
      = unat (header_offset (ledger two_files ! i))
        + length (on_disk localtime_utc (layout localtime_utc 0 two_requests ! i))"
    by blast
  with s o have "unat (header_offset (ledger two_files ! Suc 0))
      = unat (header_offset (ledger two_files ! 0))
        + length (on_disk localtime_utc (layout localtime_utc 0 two_requests ! 0))"
    by blast
  then have 5: "unat (header_offset (ledger two_files ! 1))
                = unat (header_offset (ledger two_files ! 0)) + 41"
    by (simp add: layout_two_requests length_on_disk_two_requests)
  from t have 6: "userdata two_files
      = concat (map (on_disk localtime_utc) (layout localtime_utc 0 two_requests))"
    by blast
  from t have "0 = length ([] :: u8 list) \<longrightarrow> offset two_files = length (userdata two_files)"
    by blast
  then have 7: "offset two_files = length (userdata two_files)" by simp
  have 8: "offset two_files = 98" by (simp add: two_files_def)
  have 9: "offset (slack_session 2) = length (userdata (slack_session 2))"
    by (simp add: slack_session_fields)
  from add_two_requests observes_slack_session [of 2] scratch_slack_session [of 2]
    1 2 3 4 5 6 7 8 9
  show ?thesis by blast
qed

section \<open>The end record\<close>

text \<open>
  C4, as the claim has it: after \<^verbatim>\<open>N\<close> successful adds, both entry-count fields of the end
  record hold \<^verbatim>\<open>N\<close>. They are 16 bits wide. Add the one-byte file \<^verbatim>\<open>a\<close> 65536 times to a
  session over callbacks that never fail and finalize: every call returns \<^verbatim>\<open>PICOZIP_OK\<close>,
  and in the end record, the last 22 bytes sent, both count fields read 0.
\<close>

theorem entry_count_wraps_at_65536:
  "status_of (finalize_after localtime_utc (slack_session 65536)
                (replicate 65536 ([0x61], src_a, NULL 0)) (NULL 0))
   = Some PICOZIP_OK
   \<and> length (replicate 65536 ([0x61 :: u8], src_a, NULL 0)) = 65536
   \<and> READ_LE16
       (drop (length (userdata_of [] (finalize_after localtime_utc (slack_session 65536)
                                        (replicate 65536 ([0x61], src_a, NULL 0)) (NULL 0)))
              - 22)
          (userdata_of [] (finalize_after localtime_utc (slack_session 65536)
                             (replicate 65536 ([0x61], src_a, NULL 0)) (NULL 0)))) 8
     = 0
   \<and> READ_LE16
       (drop (length (userdata_of [] (finalize_after localtime_utc (slack_session 65536)
                                        (replicate 65536 ([0x61], src_a, NULL 0)) (NULL 0)))
              - 22)
          (userdata_of [] (finalize_after localtime_utc (slack_session 65536)
                             (replicate 65536 ([0x61], src_a, NULL 0)) (NULL 0)))) 10
     = 0"
proof -
  define R where "R = finalize_after localtime_utc (slack_session 65536)
                        (replicate 65536 ([0x61], src_a, NULL 0)) (NULL 0)"
  have R: "R = finalize_after localtime_utc (slack_session 65536)
                 (replicate 65536 ([0x61], Known (Ptr [1]) 0, NULL 0)) (NULL 0)"
    unfolding R_def src_a_def ..
  have 1: "status_of R = Some PICOZIP_OK" unfolding R by (rule slack_run(1))
  from slack_run(2) [of 65536 "[0x61]" "[1]" 0] obtain cd_size cd_offset
    where e: "drop (length (userdata_of [] R) - 22) (userdata_of [] R)
              = eocd 65536 cd_size cd_offset 0"
    unfolding R by blast
  have 2: "READ_LE16 (drop (length (userdata_of [] R) - 22) (userdata_of [] R)) 8 = 0"
    unfolding e by (simp add: eocd_fields)
  have 3: "READ_LE16 (drop (length (userdata_of [] R) - 22) (userdata_of [] R)) 10 = 0"
    unfolding e by (simp add: eocd_fields)
  have 4: "length (replicate 65536 ([0x61 :: u8], src_a, NULL 0)) = 65536"
    by (simp only: length_replicate)
  from 1 2 3 4 show ?thesis unfolding R_def by blast
qed

text \<open>
  C4, amended. Take a session without entries, as \<^verbatim>\<open>picozip_new\<close> returns it, a run of
  \<^verbatim>\<open>N\<close> adds that all succeed on it, and a finalize that succeeds. The ledger then holds
  \<^verbatim>\<open>N\<close> entries; finalize sends their central records in order, the 22-byte end record and
  the archive comment. The central records take 46 bytes plus filename, extra field and
  comment for each entry. Both count fields of the end record hold \<^verbatim>\<open>N\<close> modulo 65536,
  so \<^verbatim>\<open>N\<close> itself up to 65535 entries; its size field holds the number of bytes of the
  central records and its offset field the write offset at which finalize started, which
  is where the central directory starts in the output, both modulo \<^verbatim>\<open>2^32\<close>. With no
  adds and no comment, on a session at offset 0, the 22 bytes of the end record with all
  counters zero are all that is sent.
\<close>

theorem eocd_declares_central_directory:
  assumes "num_entries f0 = 0"
    and "add_entries localtime f0 xs = Inr (PICOZIP_OK, Some f)"
    and "picozip_end_ex localtime (Some f) c = Inr (PICOZIP_OK, Some f')"
    and "observes f0 out" and "length (scratch f0) = 64"
  shows "(let cd = central_directory_bytes localtime (ledger f);
              E = eocd (length xs) (length cd) (offset f) (buf_len c)
          in length (ledger f) = length xs
             \<and> out (userdata f') = out (userdata f) @ cd @ E @ buf_bytes c
             \<and> length (buf_bytes c) = buf_len c
             \<and> length cd = sum_list (map (\<lambda>e. 46 + unat (filename_len e)
                                                 + unat (extra_field_len e)
                                                 + unat (comment_len e)) (ledger f))
             \<and> length E = 22
             \<and> READ_LE32 E 0 = 0x06054b50
             \<and> unat (READ_LE16 E 8) = length xs mod 65536
             \<and> unat (READ_LE16 E 10) = length xs mod 65536
             \<and> unat (READ_LE32 E 12) = length cd mod 4294967296
             \<and> unat (READ_LE32 E 16) = offset f mod 4294967296
             \<and> (offset f0 = length (out (userdata f0))
                  \<longrightarrow> offset f = length (out (userdata f)))
             \<and> (xs = [] \<and> buf_len c = 0 \<and> offset f0 = 0 \<longrightarrow>
                  out (userdata f')
                  = out (userdata f0)
                    @ [0x50, 0x4b, 0x05, 0x06, 0, 0, 0, 0, 0, 0, 0, 0, 0, 0, 0, 0,
                       0, 0, 0, 0, 0, 0]))"
proof -
  define cd where "cd = central_directory_bytes localtime (ledger f)"
  define E where "E = eocd (length xs) (length cd) (offset f) (buf_len c)"
  note t = end_after_adds [OF assms]
  have 1: "length (ledger f) = length xs" using t(2) by (simp add: ledger_def)
  have 2: "out (userdata f') = out (userdata f) @ cd @ E @ buf_bytes c"
    using t(8) by (simp add: cd_def E_def)
  have 3: "length (buf_bytes c) = buf_len c" using t(9) .
  have 4: "length cd = sum_list (map (\<lambda>e. 46 + unat (filename_len e) + unat (extra_field_len e)
                                            + unat (comment_len e)) (ledger f))"
    unfolding cd_def using t(3) by (rule length_central_directory_bytes)
  have 5: "length E = 22" "READ_LE32 E 0 = 0x06054b50"
    by (simp_all add: E_def eocd_fields)
  have 6: "unat (READ_LE16 E 8) = length xs mod 65536"
    "unat (READ_LE16 E 10) = length xs mod 65536"
    by (simp_all add: E_def eocd_fields unat_of_nat_u16_mod)
  have 7: "unat (READ_LE32 E 12) = length cd mod 4294967296"
    "unat (READ_LE32 E 16) = offset f mod 4294967296"
    by (simp_all add: E_def eocd_fields unat_of_nat_u32_mod)
  have 8: "offset f = length (out (userdata f))" if "offset f0 = length (out (userdata f0))"
    using t(6,7) that by simp
  have 9: "out (userdata f')
           = out (userdata f0)
             @ [0x50, 0x4b, 0x05, 0x06, 0, 0, 0, 0, 0, 0, 0, 0, 0, 0, 0, 0, 0, 0, 0, 0, 0, 0]"
    if "xs = []" "buf_len c = 0" "offset f0 = 0"
  proof -
    from that(1) t(1) have "cd = []" by (simp add: cd_def central_directory_bytes_def)
    moreover from that(2) 3 have "buf_bytes c = []" by simp
    moreover from that(1,3) t(6) have "offset f = 0" by simp
    moreover from that(1) t(7) have "out (userdata f) = out (userdata f0)" by simp
    ultimately show ?thesis using 2 that by (simp add: E_def eocd_no_entries)
  qed
  from 8 have 8: "offset f0 = length (out (userdata f0)) \<longrightarrow> offset f = length (out (userdata f))"
    by blast
  have 9: "xs = [] \<and> buf_len c = 0 \<and> offset f0 = 0 \<longrightarrow>
      out (userdata f')
      = out (userdata f0)
        @ [0x50, 0x4b, 0x05, 0x06, 0, 0, 0, 0, 0, 0, 0, 0, 0, 0, 0, 0, 0, 0, 0, 0, 0, 0]"
  proof (intro impI)
    assume a: "xs = [] \<and> buf_len c = 0 \<and> offset f0 = 0"
    then have "xs = []" "buf_len c = 0" "offset f0 = 0" by simp_all
    then show "out (userdata f')
      = out (userdata f0)
        @ [0x50, 0x4b, 0x05, 0x06, 0, 0, 0, 0, 0, 0, 0, 0, 0, 0, 0, 0, 0, 0, 0, 0, 0, 0]"
      by (rule 9)
  qed
  show ?thesis
    unfolding Let_def cd_def [symmetric] E_def [symmetric]
    by (intro conjI) (fact 1 2 3 4 5 6 7 8 9)+
qed

text \<open>
  The amended statement at a new session finalized at once, whose whole output is the 22
  bytes, and at the run of the examples: two entries, 112 bytes of central directory,
  written from offset 98.
\<close>

theorem eocd_declares_central_directory_witness:
  "num_entries (new_session 0 9) = 0
   \<and> add_entries localtime_utc (new_session 0 9) [] = Inr (PICOZIP_OK, Some (new_session 0 9))
   \<and> picozip_end_ex localtime_utc (Some (new_session 0 9)) (NULL 0)
     = Inr (PICOZIP_OK, Some (finalized (new_session 0 9)))
   \<and> observes (new_session 0 9) mem
   \<and> length (scratch (new_session 0 9)) = 64
   \<and> mem (userdata (finalized (new_session 0 9)))
     = [0x50, 0x4b, 0x05, 0x06, 0, 0, 0, 0, 0, 0, 0, 0, 0, 0, 0, 0, 0, 0, 0, 0, 0, 0]
   \<and> num_entries (slack_session 2) = 0
   \<and> add_entries localtime_utc (slack_session 2) two_requests = Inr (PICOZIP_OK, Some two_files)
   \<and> picozip_end_ex localtime_utc (Some two_files) (NULL 0)
     = Inr (PICOZIP_OK, Some (sure_finalized two_files))
   \<and> observes (slack_session 2) (\<lambda>u. u)
   \<and> length (scratch (slack_session 2)) = 64
   \<and> length two_requests = 2
   \<and> length (ledger two_files) = 2
   \<and> userdata (sure_finalized two_files)
     = userdata two_files @ central_directory_bytes localtime_utc (ledger two_files)
       @ eocd 2 112 98 0
   \<and> length (central_directory_bytes localtime_utc (ledger two_files)) = 112
   \<and> length (userdata two_files) = 98
   \<and> unat (READ_LE16 (eocd 2 112 98 0) 8) = 2
   \<and> unat (READ_LE16 (eocd 2 112 98 0) 10) = 2
   \<and> unat (READ_LE32 (eocd 2 112 98 0) 12) = 112
   \<and> unat (READ_LE32 (eocd 2 112 98 0) 16) = 98"
proof -
  have e0: "picozip_end_ex localtime_utc (Some (new_session 0 9)) (NULL 0)
            = Inr (PICOZIP_OK, Some (finalized (new_session 0 9)))"
    using end_new_session by (simp add: picozip_end_def)
  note a = eocd_declares_central_directory [OF new_session_fields(2) add_no_requests e0
      observes_new_session scratch_new_session, unfolded Let_def]
  from a have "[] = ([] :: add_request list) \<and> buf_len (NULL 0) = 0
               \<and> offset (new_session 0 9) = 0 \<longrightarrow>
      mem (userdata (finalized (new_session 0 9)))
      = mem (userdata (new_session 0 9))
        @ [0x50, 0x4b, 0x05, 0x06, 0, 0, 0, 0, 0, 0, 0, 0, 0, 0, 0, 0, 0, 0, 0, 0, 0, 0]"
    by (elim conjE)
  then have 1: "mem (userdata (finalized (new_session 0 9)))
      = [0x50, 0x4b, 0x05, 0x06, 0, 0, 0, 0, 0, 0, 0, 0, 0, 0, 0, 0, 0, 0, 0, 0, 0, 0]"
    by (simp add: new_session_fields)
  note b = eocd_declares_central_directory [OF slack_session_fields(2) add_two_requests
      end_two_files observes_slack_session scratch_slack_session, unfolded Let_def]
  have l: "length two_requests = 2" by (simp add: two_requests_def)
  note c = length_central_directory_two_files two_files_fields
  from b have 2: "length (ledger two_files) = 2" by (simp add: l)
  from b have 3: "userdata (sure_finalized two_files)
     = userdata two_files @ central_directory_bytes localtime_utc (ledger two_files)
       @ eocd 2 112 98 0"
    by (simp add: l c)
  from b have "0 = length ([] :: u8 list) \<longrightarrow> offset two_files = length (userdata two_files)"
    by (elim conjE) (simp add: slack_session_fields)
  then have 4: "length (userdata two_files) = 98" by (simp add: c)
  from b have 5: "unat (READ_LE16 (eocd 2 112 98 0) 8) = 2"
    "unat (READ_LE16 (eocd 2 112 98 0) 10) = 2"
    "unat (READ_LE32 (eocd 2 112 98 0) 12) = 112"
    "unat (READ_LE32 (eocd 2 112 98 0) 16) = 98"
    by (simp_all add: l c)
  show ?thesis
    by (intro conjI)
       (fact new_session_fields(2) add_no_requests e0 observes_new_session scratch_new_session 1
          slack_session_fields(2) add_two_requests end_two_files observes_slack_session
          scratch_slack_session l 2 3 c(1) 4 5)+
qed

section \<open>Streamed entries\<close>

text \<open>
  C5, as the claim has it: the CRC-32 field of the data descriptor matches the content
  read. It holds the complement. Stream the one-byte file \<^verbatim>\<open>a\<close>, whose content is the byte
  1, into a new session: the local record takes 40 bytes, the content one, and the CRC-32
  field of the descriptor, at offset 45 of the output, reads \<^verbatim>\<open>0x5AFA20E4\<close>, while the
  CRC-32 of the content is \<^verbatim>\<open>0xA505DF1B\<close>.
\<close>

theorem descriptor_crc_is_complemented:
  "picozip_new_entry_file localtime_utc (Some (new_session 9 9)) (Some [0x61])
     (Some \<lparr>st_mtime = Some 0, contents = [1]\<rparr>) (NULL 0)
   = Inr (PICOZIP_OK, Some (session_of [0x61] src_s 5))
   \<and> length (mem (userdata (session_of [0x61] src_s 5))) = 57
   \<and> READ_LE32 (mem (userdata (session_of [0x61] src_s 5))) 41 = 0x08074b50
   \<and> READ_LE32 (mem (userdata (session_of [0x61] src_s 5))) 45 = 0x5AFA20E4
   \<and> reference_crc32 [1] = 0xA505DF1B
   \<and> picozip__crc32 [1] PICOZIP__CRC_START = 0xA505DF1B"
proof -
  let ?h = "header_entry 0 [0x61] src_s (NULL 0)"
  let ?e = "final_entry 0 [0x61] src_s (NULL 0)"
  let ?L = "local_record localtime_utc ?h"
  let ?D = "data_descriptor ?e"
  have 1: "picozip_new_entry_file localtime_utc (Some (new_session 9 9)) (Some [0x61])
             (Some \<lparr>st_mtime = Some 0, contents = [1]\<rparr>) (NULL 0)
           = Inr (PICOZIP_OK, Some (session_of [0x61] src_s 5))"
    using add_src_s by (simp add: add_entry_def src_s_def)
  have ct: "content src_s = [1]" "trailer 0 [0x61] src_s (NULL 0) = ?D"
    by (simp_all add: src_s_def content_def trailer_def)
  have m: "mem (userdata (session_of [0x61] src_s 5)) = (?L @ [1]) @ ?D"
    unfolding mem_session_of ct by simp
  have lL: "length (?L @ [1]) = 41" by (simp add: length_local_record_header_entry)
  have crc: "crc32 ?e = 0x5AFA20E4"
    by (simp add: src_s_def final_entry_def picozip__crc32_reference reference_crc32_one_byte)
  have 2: "length (mem (userdata (session_of [0x61] src_s 5))) = 57"
    unfolding m using lL by simp
  have "READ_LE32 ((?L @ [1]) @ ?D) (length (?L @ [1]) + 0) = READ_LE32 ?D 0"
    by (simp only: READ_LE32_skip)
  then have 3: "READ_LE32 (mem (userdata (session_of [0x61] src_s 5))) 41 = 0x08074b50"
    unfolding m lL by (simp add: data_descriptor_fields)
  have "READ_LE32 ((?L @ [1]) @ ?D) (length (?L @ [1]) + 4) = READ_LE32 ?D 4"
    by (simp only: READ_LE32_skip)
  then have 4: "READ_LE32 (mem (userdata (session_of [0x61] src_s 5))) 45 = 0x5AFA20E4"
    unfolding m lL by (simp add: data_descriptor_fields crc)
  have 5: "picozip__crc32 [1] PICOZIP__CRC_START = 0xA505DF1B"
    by (simp only: picozip__crc32_reference reference_crc32_one_byte)
  show ?thesis
    by (intro conjI) (fact 1 2 3 4 5 reference_crc32_one_byte)+
qed

text \<open>
  C5, amended. Take a streamed add that succeeds after any run of adds, and a finalize
  that follows. The add sends the local record, the content read from the stream and a
  16-byte data descriptor. In the local header bit 3 of the flags is set and the CRC-32
  and the two sizes are zero. The descriptor starts with \<^verbatim>\<open>0x08074b50\<close>; its CRC-32
  field holds the complement of the CRC-32 of the content read, and its two size fields
  hold the length of that content, in their 32 bits. The ledger entry holds the same three
  values, and so does the central record finalize sends for the entry.
\<close>

theorem streamed_entry_descriptor:
  assumes "num_entries f0 = 0"
    and "add_entries localtime f0 xs = Inr (PICOZIP_OK, Some f)"
    and "picozip_new_entry_file localtime (Some f) (Some p) (Some fp) c
         = Inr (PICOZIP_OK, Some f1)"
    and "picozip_end_ex localtime (Some f1) c2 = Inr (PICOZIP_OK, Some f2)"
    and "observes f0 out" and "length (scratch f0) = 64"
  shows "(let L = local_record localtime (header_entry (offset f) p (Streamed fp) c);
              e = deref f1 (length xs);
              D = data_descriptor e;
              C = central_record localtime e
          in out (userdata f1) = out (userdata f) @ L @ contents fp @ D
             \<and> out (userdata f2)
               = out (userdata f1) @ central_directory_bytes localtime (ledger f) @ C
                 @ eocd (length xs + 1) (length (central_directory_bytes localtime (ledger f1)))
                     (offset f1) (buf_len c2)
                 @ buf_bytes c2
             \<and> bit (READ_LE16 L 6) 3
             \<and> READ_LE32 L 14 = 0 \<and> READ_LE32 L 18 = 0 \<and> READ_LE32 L 22 = 0
             \<and> length D = 16
             \<and> READ_LE32 D 0 = 0x08074b50
             \<and> READ_LE32 D 4 = NOT (reference_crc32 (contents fp))
             \<and> unat (READ_LE32 D 8) = length (contents fp) mod 4294967296
             \<and> unat (READ_LE32 D 12) = length (contents fp) mod 4294967296
             \<and> crc32 e = READ_LE32 D 4
             \<and> comp_size e = READ_LE32 D 8
             \<and> uncomp_size e = READ_LE32 D 12
             \<and> bit (READ_LE16 C 8) 3
             \<and> READ_LE32 C 16 = READ_LE32 D 4
             \<and> READ_LE32 C 20 = READ_LE32 D 8
             \<and> READ_LE32 C 24 = READ_LE32 D 12)"
proof -
  let ?src = "Streamed fp"
  define h where "h = header_entry (offset f) p ?src c"
  define e where "e = final_entry (offset f) p ?src c"
  from assms(3) have add: "add_entry localtime (Some f) (Some p) ?src c
                           = Inr (PICOZIP_OK, Some f1)"
    by (simp add: add_entry_def)
  note t = add_then_end [OF assms(1,2) add assms(5,6)]
  have d: "deref f1 (length xs) = e" using t(1,2) by (simp add: e_def)
  let ?L = "local_record localtime h"
  let ?D = "data_descriptor e"
  let ?C = "central_record localtime e"
  have 1: "out (userdata f1) = out (userdata f) @ ?L @ contents fp @ ?D"
    using t(4) by (simp add: h_def e_def content_def trailer_def)
  have 2: "out (userdata f2)
           = out (userdata f1) @ central_directory_bytes localtime (ledger f) @ ?C
             @ eocd (length xs + 1) (length (central_directory_bytes localtime (ledger f1)))
                 (offset f1) (buf_len c2)
             @ buf_bytes c2"
    using t(6) [OF assms(4)] by (simp add: e_def)
  have hf: "flags h = 8" "crc32 h = 0" "comp_size h = 0" "uncomp_size h = 0"
    by (simp_all add: h_def header_entry_content)
  have ef: "flags e = 8" "crc32 e = NOT (reference_crc32 (contents fp))"
    "comp_size e = of_nat (length (contents fp))"
    "uncomp_size e = of_nat (length (contents fp))"
    by (simp_all add: e_def final_entry_def header_entry_content NOT_u32
        picozip__crc32_reference)
  have b8: "bit (8 :: u16) 3" by (simp add: bit_iff_odd)
  have 3: "bit (READ_LE16 ?L 6) 3" "READ_LE32 ?L 14 = 0" "READ_LE32 ?L 18 = 0"
    "READ_LE32 ?L 22 = 0"
    by (simp_all add: local_record_fields hf b8)
  have 4: "length ?D = 16" "READ_LE32 ?D 0 = 0x08074b50"
    "READ_LE32 ?D 4 = NOT (reference_crc32 (contents fp))"
    "unat (READ_LE32 ?D 8) = length (contents fp) mod 4294967296"
    "unat (READ_LE32 ?D 12) = length (contents fp) mod 4294967296"
    by (simp_all add: data_descriptor_fields ef unat_of_nat_u32_mod)
  have 5: "crc32 e = READ_LE32 ?D 4" "comp_size e = READ_LE32 ?D 8"
    "uncomp_size e = READ_LE32 ?D 12"
    by (simp_all add: data_descriptor_fields)
  have 6: "bit (READ_LE16 ?C 8) 3" "READ_LE32 ?C 16 = READ_LE32 ?D 4"
    "READ_LE32 ?C 20 = READ_LE32 ?D 8" "READ_LE32 ?C 24 = READ_LE32 ?D 12"
    by (simp_all add: central_record_fields data_descriptor_fields ef b8)
  show ?thesis
    unfolding Let_def d h_def [symmetric]
    by (intro conjI) (fact 1 2 3 4 5 6)+
qed

text \<open>
  The amended statement at the one-byte file \<^verbatim>\<open>a\<close> streamed into a new session over the
  callbacks of the tests, which is then finalized.
\<close>

theorem streamed_entry_descriptor_witness:
  "num_entries (new_session 9 9) = 0
   \<and> add_entries localtime_utc (new_session 9 9) [] = Inr (PICOZIP_OK, Some (new_session 9 9))
   \<and> picozip_new_entry_file localtime_utc (Some (new_session 9 9)) (Some [0x61])
       (Some \<lparr>st_mtime = Some 0, contents = [1]\<rparr>) (NULL 0)
     = Inr (PICOZIP_OK, Some (session_of [0x61] src_s 5))
   \<and> picozip_end_ex localtime_utc (Some (session_of [0x61] src_s 5)) (NULL 0)
     = Inr (PICOZIP_OK, Some (finalized (session_of [0x61] src_s 5)))
   \<and> observes (new_session 9 9) mem
   \<and> length (scratch (new_session 9 9)) = 64
   \<and> mem (userdata (session_of [0x61] src_s 5))
     = local_record localtime_utc
         (header_entry 0 [0x61] (Streamed \<lparr>st_mtime = Some 0, contents = [1]\<rparr>) (NULL 0))
       @ [1] @ data_descriptor (deref (session_of [0x61] src_s 5) 0)
   \<and> READ_LE32 (data_descriptor (deref (session_of [0x61] src_s 5) 0)) 4 = 0x5AFA20E4
   \<and> unat (READ_LE32 (data_descriptor (deref (session_of [0x61] src_s 5) 0)) 8) = 1
   \<and> unat (READ_LE32 (data_descriptor (deref (session_of [0x61] src_s 5) 0)) 12) = 1
   \<and> READ_LE32 (central_record localtime_utc (deref (session_of [0x61] src_s 5) 0)) 16
     = 0x5AFA20E4"
proof -
  have ok: "picozip_new_entry_file localtime_utc (Some (new_session 9 9)) (Some [0x61])
              (Some \<lparr>st_mtime = Some 0, contents = [1]\<rparr>) (NULL 0)
            = Inr (PICOZIP_OK, Some (session_of [0x61] src_s 5))"
    using add_src_s by (simp add: add_entry_def src_s_def)
  note t = streamed_entry_descriptor [OF new_session_fields(2) add_empty_run ok end_src_s
      observes_new_session scratch_new_session,
      unfolded Let_def list.size(3) new_session_fields append_Nil FILE.simps]
  from t have r1: "mem (userdata (session_of [0x61] src_s 5))
     = local_record localtime_utc
         (header_entry 0 [0x61] (Streamed \<lparr>st_mtime = Some 0, contents = [1]\<rparr>) (NULL 0))
       @ [1] @ data_descriptor (deref (session_of [0x61] src_s 5) 0)"
    by (elim conjE)
  from t have "READ_LE32 (data_descriptor (deref (session_of [0x61] src_s 5) 0)) 4
               = NOT (reference_crc32 [1])"
    by (elim conjE)
  then have r2: "READ_LE32 (data_descriptor (deref (session_of [0x61] src_s 5) 0)) 4
                 = 0x5AFA20E4"
    by (simp add: reference_crc32_one_byte)
  from t have "unat (READ_LE32 (data_descriptor (deref (session_of [0x61] src_s 5) 0)) 8)
               = length [1 :: u8] mod 4294967296"
    by (elim conjE)
  then have r3: "unat (READ_LE32 (data_descriptor (deref (session_of [0x61] src_s 5) 0)) 8) = 1"
    by simp
  from t have "unat (READ_LE32 (data_descriptor (deref (session_of [0x61] src_s 5) 0)) 12)
               = length [1 :: u8] mod 4294967296"
    by (elim conjE)
  then have r4: "unat (READ_LE32 (data_descriptor (deref (session_of [0x61] src_s 5) 0)) 12) = 1"
    by simp
  from t have "READ_LE32 (central_record localtime_utc (deref (session_of [0x61] src_s 5) 0)) 16
               = READ_LE32 (data_descriptor (deref (session_of [0x61] src_s 5) 0)) 4"
    by (elim conjE)
  with r2 have r5:
    "READ_LE32 (central_record localtime_utc (deref (session_of [0x61] src_s 5) 0)) 16
     = 0x5AFA20E4"
    by simp
  show ?thesis
    by (intro conjI)
       (fact new_session_fields(2) add_empty_run ok end_src_s observes_new_session
          scratch_new_session r1 r2 r3 r4 r5)+
qed

section \<open>Finalizing twice\<close>

text \<open>
  C6, as the claim has it: a second finalize fails with an invalid-state error and writes
  nothing. It succeeds and writes. Create a session over the callbacks of the tests and
  call \<^verbatim>\<open>picozip_end\<close> twice: both calls return \<^verbatim>\<open>PICOZIP_OK\<close>. The first sends the
  22-byte end record, the second a further end record after it, whose central directory
  offset is 22, and the output is 44 bytes long.
\<close>

theorem second_finalize_returns_OK:
  "picozip_new True (Some custom_write) (Some custom_alloc) (Some custom_free)
     \<lparr>num_alloc_success = Suc 0, num_write_success = 9, mem = []\<rparr>
   = (PICOZIP_OK, Some (new_session 0 9),
      \<lparr>num_alloc_success = 0, num_write_success = 9, mem = []\<rparr>)
   \<and> picozip_end localtime_utc (Some (new_session 0 9))
     = Inr (PICOZIP_OK, Some (finalized (new_session 0 9)))
   \<and> picozip_end localtime_utc (Some (finalized (new_session 0 9)))
     = Inr (PICOZIP_OK, Some (finalized (finalized (new_session 0 9))))
   \<and> mem (userdata (finalized (new_session 0 9))) = eocd 0 0 0 0
   \<and> mem (userdata (finalized (finalized (new_session 0 9)))) = eocd 0 0 0 0 @ eocd 0 0 22 0
   \<and> length (mem (userdata (finalized (new_session 0 9)))) = 22
   \<and> length (mem (userdata (finalized (finalized (new_session 0 9))))) = 44"
proof -
  let ?f = "new_session 0 9"
  have l: "ledger ?f = []" by (rule ledger_new_session)
  have l1: "ledger (finalized ?f) = []"
    by (simp add: ledger_def finalized_def Let_def new_session_fields)
  have n1: "num_entries (finalized ?f) = 0" "offset (finalized ?f) = 22"
    by (simp_all add: finalized_def Let_def new_session_fields l central_directory_bytes_def)
  have 4: "mem (userdata (finalized ?f)) = eocd 0 0 0 0"
    unfolding mem_finalized l by (simp add: new_session_fields central_directory_bytes_def)
  have 5: "mem (userdata (finalized (finalized ?f))) = eocd 0 0 0 0 @ eocd 0 0 22 0"
    unfolding mem_finalized [of "finalized ?f"] l1 n1 4
    by (simp add: central_directory_bytes_def)
  have 6: "length (mem (userdata (finalized ?f))) = 22"
    unfolding 4 by (simp add: eocd_no_entries)
  have 7: "length (mem (userdata (finalized (finalized ?f)))) = 44"
    unfolding 5 by simp
  show ?thesis
    by (intro conjI) (fact picozip_new_harness end_new_session end_finalized 4 5 6 7)+
qed

text \<open>
  C6, amended. The session keeps no record of having been finalized, and finalize runs
  again as it ran the first time. Take a session finalized with success after any run of
  adds. The first finalize has left the ledger as it was and has moved the offset by what
  it sent. A second finalize returns the invalid-argument error exactly for a null
  comment of nonzero length, as the first would; otherwise it returns \<^verbatim>\<open>PICOZIP_OK\<close> or
  the I/O error of a failed write, and \<^verbatim>\<open>PICOZIP_OK\<close> when the write callback takes every
  byte it is given. When it returns \<^verbatim>\<open>PICOZIP_OK\<close> it has sent, after the bytes of the
  first finalize, the same central records once more and an end record that places the
  central directory at the offset the first finalize left.
\<close>

theorem finalize_runs_again:
  assumes "num_entries f0 = 0"
    and "add_entries localtime f0 xs = Inr (PICOZIP_OK, Some f)"
    and "picozip_end_ex localtime (Some f) c = Inr (PICOZIP_OK, Some f1)"
    and "observes f0 out" and "length (scratch f0) = 64"
  shows "(let cd = central_directory_bytes localtime (ledger f);
              again = picozip_end_ex localtime (Some f1) c2
          in ledger f1 = ledger f
             \<and> num_entries f1 = length xs
             \<and> offset f1 = offset f + length cd + 22 + buf_len c
             \<and> (buf_len c2 \<noteq> 0 \<and> is_null c2 \<longrightarrow> status_of again = Some PICOZIP_EINVAL)
             \<and> (\<not> (buf_len c2 \<noteq> 0 \<and> is_null c2) \<longrightarrow>
                  status_of again = Some PICOZIP_OK \<or> status_of again = Some PICOZIP_EIO)
             \<and> (\<not> (buf_len c2 \<noteq> 0 \<and> is_null c2)
                  \<and> (\<forall>u bs. fst (write_cb f0 u bs) = length bs) \<longrightarrow>
                  (\<exists>f2. again = Inr (PICOZIP_OK, Some f2)))
             \<and> (\<forall>f2. again = Inr (PICOZIP_OK, Some f2) \<longrightarrow>
                  out (userdata f2)
                  = out (userdata f1) @ cd
                    @ eocd (length xs) (length cd) (offset f1) (buf_len c2) @ buf_bytes c2
                  \<and> ledger f2 = ledger f)
             \<and> picozip_end localtime (Some f1) = picozip_end_ex localtime (Some f1) (NULL 0))"
proof -
  define cd where "cd = central_directory_bytes localtime (ledger f)"
  define again where "again = picozip_end_ex localtime (Some f1) c2"
  note t = end_after_adds [OF assms]
  from t(5) have s46: "46 \<le> length (scratch f)" by simp
  note k = end_ex_keeps [OF assms(3) t(4) s46 t(3)]
  have 1: "ledger f1 = ledger f" by (rule k(3))
  have 2: "num_entries f1 = length xs" using k(2) t(2) by simp
  have 3: "offset f1 = offset f + length cd + 22 + buf_len c" using t(10) by (simp add: cd_def)
  have ld1: "\<forall>j < num_entries f1. load_entry f1 j = Inr (deref f1 j)"
    using t(11) unfolding load_entry_frame [OF k(1)] deref_frame [OF k(1)] k(2) .
  have eok1: "list_all entry_ok (ledger f1)" using t(3) by (simp add: 1)
  have s1: "46 \<le> length (scratch f1)" using k(6) s46 by simp
  have 4: "buf_len c2 \<noteq> 0 \<and> is_null c2 \<longrightarrow> status_of again = Some PICOZIP_EINVAL"
    unfolding again_def using end_ex_returns(1) [OF ld1] by blast
  have 5: "\<not> (buf_len c2 \<noteq> 0 \<and> is_null c2) \<longrightarrow>
             status_of again = Some PICOZIP_OK \<or> status_of again = Some PICOZIP_EIO"
    unfolding again_def using end_ex_returns(2) [OF ld1] by blast
  have 6: "\<not> (buf_len c2 \<noteq> 0 \<and> is_null c2)
             \<and> (\<forall>u bs. fst (write_cb f0 u bs) = length bs) \<longrightarrow>
           (\<exists>f2. again = Inr (PICOZIP_OK, Some f2))"
  proof (intro impI)
    assume a: "\<not> (buf_len c2 \<noteq> 0 \<and> is_null c2)
               \<and> (\<forall>u bs. fst (write_cb f0 u bs) = length bs)"
    have "write_cb f = write_cb f0" using add_entries_OK [OF assms(2), of out] by blast
    with a k(4) have w: "\<forall>u bs. fst (write_cb f1 u bs) = length bs" by simp
    from a have vc: "length (buf_bytes c2) = buf_len c2" by (simp add: buf_valid_iff)
    from end_ex_accepted [OF w ld1 eok1 s1 vc]
    show "\<exists>f2. again = Inr (PICOZIP_OK, Some f2)" unfolding again_def .
  qed
  have 7: "\<forall>f2. again = Inr (PICOZIP_OK, Some f2) \<longrightarrow>
             out (userdata f2)
             = out (userdata f1) @ cd
               @ eocd (length xs) (length cd) (offset f1) (buf_len c2) @ buf_bytes c2
             \<and> ledger f2 = ledger f"
  proof (intro allI impI)
    fix f2 assume "again = Inr (PICOZIP_OK, Some f2)"
    then have fin2: "picozip_end_ex localtime (Some f1) c2 = Inr (PICOZIP_OK, Some f2)"
      by (simp add: again_def)
    from eok1 have eok1': "\<forall>e \<in> set (ledger f1). entry_ok e" by (simp add: list_all_iff)
    from end_ex_OK(1) [OF fin2 k(5) s1 eok1'] obtain u
      where "out (userdata f2)
             = out (userdata f1) @ central_directory_bytes localtime (ledger f1)
               @ eocd (num_entries f1) (length (central_directory_bytes localtime (ledger f1)))
                   (offset f1) (buf_len c2)
               @ buf_bytes c2"
      by auto
    then have o: "out (userdata f2)
             = out (userdata f1) @ cd
               @ eocd (length xs) (length cd) (offset f1) (buf_len c2) @ buf_bytes c2"
      by (simp add: 1 2 cd_def)
    have "ledger f2 = ledger f1" using end_ex_keeps(3) [OF fin2 k(5) s1 eok1] .
    with o show "out (userdata f2)
             = out (userdata f1) @ cd
               @ eocd (length xs) (length cd) (offset f1) (buf_len c2) @ buf_bytes c2
             \<and> ledger f2 = ledger f"
      by (simp add: 1)
  qed
  have 8: "picozip_end localtime (Some f1) = picozip_end_ex localtime (Some f1) (NULL 0)"
    by (simp add: picozip_end_def)
  show ?thesis
    unfolding Let_def cd_def [symmetric] again_def [symmetric]
    by (intro conjI) (fact 1 2 3 4 5 6 7 8)+
qed

text \<open>
  The amended statement at the run of the examples over callbacks that never fail: the
  files \<^verbatim>\<open>a\<close> and \<^verbatim>\<open>b\<close> are added and the session is finalized, which leaves 232 bytes. A
  second finalize returns \<^verbatim>\<open>PICOZIP_OK\<close> and sends the 112 bytes of the two central records
  and an end record for two entries once more.
\<close>

theorem finalize_runs_again_witness:
  "num_entries (slack_session 2) = 0
   \<and> add_entries localtime_utc (slack_session 2) two_requests = Inr (PICOZIP_OK, Some two_files)
   \<and> picozip_end_ex localtime_utc (Some two_files) (NULL 0)
     = Inr (PICOZIP_OK, Some (sure_finalized two_files))
   \<and> observes (slack_session 2) (\<lambda>u. u)
   \<and> length (scratch (slack_session 2)) = 64
   \<and> ledger (sure_finalized two_files) = ledger two_files
   \<and> offset (sure_finalized two_files) = 232
   \<and> length (userdata (sure_finalized two_files)) = 232
   \<and> status_of (picozip_end_ex localtime_utc (Some (sure_finalized two_files)) (NULL 0))
     = Some PICOZIP_OK
   \<and> userdata_of [] (picozip_end_ex localtime_utc (Some (sure_finalized two_files)) (NULL 0))
     = userdata (sure_finalized two_files)
       @ central_directory_bytes localtime_utc (ledger two_files) @ eocd 2 112 232 0
   \<and> length (userdata_of []
               (picozip_end_ex localtime_utc (Some (sure_finalized two_files)) (NULL 0)))
     = 366"
proof -
  note t = finalize_runs_again [OF slack_session_fields(2) add_two_requests end_two_files
      observes_slack_session scratch_slack_session, of "NULL 0",
      unfolded Let_def length_central_directory_two_files two_files_fields]
  have n2: "length two_requests = 2" by (simp add: two_requests_def)
  from t have r1: "ledger (sure_finalized two_files) = ledger two_files" by (elim conjE)
  from t have "offset (sure_finalized two_files) = 98 + 112 + 22 + buf_len (NULL 0)"
    by (elim conjE)
  then have r2: "offset (sure_finalized two_files) = 232" by simp
  have u0: "length (userdata two_files) = 98"
    by (simp add: two_files_def length_on_disk_two_requests)
  have r3: "length (userdata (sure_finalized two_files)) = 232"
    unfolding userdata_sure_finalized
    by (simp add: u0 length_central_directory_two_files)
  from t have "\<not> (buf_len (NULL 0) \<noteq> 0 \<and> is_null (NULL 0))
               \<and> (\<forall>u bs. fst (write_cb (slack_session 2) u bs) = length bs) \<longrightarrow>
               (\<exists>f2. picozip_end_ex localtime_utc (Some (sure_finalized two_files)) (NULL 0)
                     = Inr (PICOZIP_OK, Some f2))"
    by (elim conjE)
  with sure_slack_session(2) [of 2] obtain f2
    where fin2: "picozip_end_ex localtime_utc (Some (sure_finalized two_files)) (NULL 0)
                 = Inr (PICOZIP_OK, Some f2)"
    by auto
  from t have "\<forall>f2. picozip_end_ex localtime_utc (Some (sure_finalized two_files)) (NULL 0)
                    = Inr (PICOZIP_OK, Some f2) \<longrightarrow>
                 userdata f2
                 = userdata (sure_finalized two_files)
                   @ central_directory_bytes localtime_utc (ledger two_files)
                   @ eocd (length two_requests) 112 (offset (sure_finalized two_files))
                       (buf_len (NULL 0))
                   @ buf_bytes (NULL 0)
                 \<and> ledger f2 = ledger two_files"
    by (elim conjE)
  with fin2 have u2: "userdata f2
                 = userdata (sure_finalized two_files)
                   @ central_directory_bytes localtime_utc (ledger two_files)
                   @ eocd 2 112 232 0"
    by (simp add: n2 r2)
  have r4: "status_of (picozip_end_ex localtime_utc (Some (sure_finalized two_files)) (NULL 0))
            = Some PICOZIP_OK"
    by (simp add: fin2 status_of_def)
  have r5: "userdata_of [] (picozip_end_ex localtime_utc (Some (sure_finalized two_files))
                              (NULL 0))
            = userdata (sure_finalized two_files)
              @ central_directory_bytes localtime_utc (ledger two_files) @ eocd 2 112 232 0"
    by (simp add: fin2 userdata_of_def u2)
  have r6: "length (userdata_of []
                      (picozip_end_ex localtime_utc (Some (sure_finalized two_files)) (NULL 0)))
            = 366"
    unfolding r5 by (simp add: r3 length_central_directory_two_files)
  show ?thesis
    by (intro conjI)
       (fact slack_session_fields(2) add_two_requests end_two_files observes_slack_session
          scratch_slack_session r1 r2 r3 r4 r5 r6)+
qed

section \<open>Directory markers\<close>

text \<open>
  C7, as the claim has it: a directory marker added from memory leaves a zero in the
  CRC-32 field of its two records. It does not. For the marker \<^verbatim>\<open>d/\<close> added to a new
  session and finalized, the field at offset 14 of the local header and the field at offset
  16 of the central record, which starts at offset 41 of the output, both read
  \<^verbatim>\<open>0xFFFFFFFF\<close>.
\<close>

theorem directory_marker_crc_field_is_not_zero:
  "picozip_new_entry_mem localtime_utc 0 (Some (new_session 9 9)) (Some [0x64, 0x2F]) (NULL 0)
   = Inr (PICOZIP_OK, Some (session_of [0x64, 0x2F] src_d 6))
   \<and> picozip_end localtime_utc (Some (session_of [0x64, 0x2F] src_d 6))
     = Inr (PICOZIP_OK, Some (finalized (session_of [0x64, 0x2F] src_d 6)))
   \<and> length (mem (userdata (session_of [0x64, 0x2F] src_d 6))) = 41
   \<and> READ_LE32 (mem (userdata (finalized (session_of [0x64, 0x2F] src_d 6)))) 14 = 0xFFFFFFFF
   \<and> READ_LE32 (mem (userdata (finalized (session_of [0x64, 0x2F] src_d 6)))) (41 + 16)
     = 0xFFFFFFFF"
proof -
  let ?h = "header_entry 0 [0x64, 0x2F] src_d (NULL 0)"
  let ?e = "final_entry 0 [0x64, 0x2F] src_d (NULL 0)"
  let ?L = "local_record localtime_utc ?h"
  let ?C = "central_record localtime_utc ?e"
  have 1: "picozip_new_entry_mem localtime_utc 0 (Some (new_session 9 9)) (Some [0x64, 0x2F])
             (NULL 0)
           = Inr (PICOZIP_OK, Some (session_of [0x64, 0x2F] src_d 6))"
    using add_src_d by (simp add: add_entry_def src_d_def picozip_new_entry_mem_def)
  have 2: "picozip_end localtime_utc (Some (session_of [0x64, 0x2F] src_d 6))
           = Inr (PICOZIP_OK, Some (finalized (session_of [0x64, 0x2F] src_d 6)))"
    using end_src_d by (simp add: picozip_end_def)
  have ct: "content src_d = []" "trailer 0 [0x64, 0x2F] src_d (NULL 0) = []"
    by (simp_all add: src_d_def content_def trailer_def)
  have m: "mem (userdata (session_of [0x64, 0x2F] src_d 6)) = ?L"
    unfolding mem_session_of ct by simp
  have lL: "length ?L = 41" by (simp add: length_local_record_header_entry)
  have crc: "crc32 ?h = 0xFFFFFFFF" "crc32 ?e = 0xFFFFFFFF"
    by (simp_all add: src_d_def final_entry_def header_entry_def mem_entry_fields
        picozip__crc32_Nil)
  obtain E where out: "mem (userdata (finalized (session_of [0x64, 0x2F] src_d 6)))
                       = ?L @ ?C @ E"
    unfolding mem_finalized ledger_session_of m
    by (simp add: central_directory_bytes_def)
  have lC: "46 \<le> length ?C" by (simp add: central_record_def)
  have 4: "READ_LE32 (?L @ ?C @ E) 14 = 0xFFFFFFFF"
    using lL by (simp add: READ_LE32_append local_record_fields crc)
  have "READ_LE32 (?L @ ?C @ E) (length ?L + 16) = READ_LE32 ?C 16"
    using lC by (simp only: READ_LE32_skip) (simp add: READ_LE32_append)
  then have 5: "READ_LE32 (?L @ ?C @ E) (41 + 16) = 0xFFFFFFFF"
    by (simp only: lL) (simp add: central_record_fields crc)
  have 3: "length (mem (userdata (session_of [0x64, 0x2F] src_d 6))) = 41"
    by (simp only: m lL)
  show ?thesis
    unfolding out by (intro conjI) (fact 1 2 3 4 5)+
qed

text \<open>
  C7, amended. An add from memory with no content and no data pointer, under any path, is
  never turned down as invalid, and on a new session over callbacks that do not fail it
  succeeds. Whenever it succeeds, after any run of adds, it sends the local record of the
  entry and nothing else, and a finalize that follows sends the central record of the
  entry after those of the entries before it. In both records the two size fields are
  zero and the CRC-32 field is \<^verbatim>\<open>0xFFFFFFFF\<close>: the code stores the complement of the
  CRC-32 of the content, which is 0 for no content.
\<close>

theorem directory_marker_fields:
  assumes "num_entries f0 = 0"
    and "add_entries localtime f0 xs = Inr (PICOZIP_OK, Some f)"
    and "picozip_new_entry_mem_ex localtime (Some f) (Some p) (NULL 0) mtime c
         = Inr (PICOZIP_OK, Some f1)"
    and "picozip_end_ex localtime (Some f1) c2 = Inr (PICOZIP_OK, Some f2)"
    and "observes f0 out" and "length (scratch f0) = 64"
  shows "(let e = deref f1 (length xs);
              L = local_record localtime e;
              C = central_record localtime e
          in out (userdata f1) = out (userdata f) @ L
             \<and> out (userdata f2)
               = out (userdata f1) @ central_directory_bytes localtime (ledger f) @ C
                 @ eocd (length xs + 1) (length (central_directory_bytes localtime (ledger f1)))
                     (offset f1) (buf_len c2)
                 @ buf_bytes c2
             \<and> READ_LE32 L 14 = 0xFFFFFFFF \<and> READ_LE32 L 18 = 0 \<and> READ_LE32 L 22 = 0
             \<and> READ_LE32 C 16 = 0xFFFFFFFF \<and> READ_LE32 C 20 = 0 \<and> READ_LE32 C 24 = 0
             \<and> picozip__crc32 [] PICOZIP__CRC_START = 0
             \<and> (\<forall>r. picozip_new_entry_mem localtime now (Some g) (Some q) (NULL 0)
                     \<noteq> Inr (PICOZIP_EINVAL, r))
             \<and> (picozip_new True (Some wr) (Some al) (Some fr) u0 = (PICOZIP_OK, Some g, u1)
                  \<and> (\<forall>u n. fst (al u n)) \<and> (\<forall>u bs. fst (wr u bs) = length bs)
                \<longrightarrow> (\<exists>g1. picozip_new_entry_mem localtime now (Some g) (Some q) (NULL 0)
                            = Inr (PICOZIP_OK, Some g1))))"
proof -
  let ?src = "Known (NULL 0) mtime"
  let ?e = "final_entry (offset f) p ?src c"
  from assms(3) have add: "add_entry localtime (Some f) (Some p) ?src c
                           = Inr (PICOZIP_OK, Some f1)"
    by (simp add: add_entry_def)
  note t = add_then_end [OF assms(1,2) add assms(5,6)]
  have d: "deref f1 (length xs) = ?e" using t(1,2) by simp
  have h: "header_entry (offset f) p ?src c = ?e" by (simp add: final_entry_def)
  have 1: "out (userdata f1) = out (userdata f) @ local_record localtime ?e"
    using t(4) by (simp add: h content_def trailer_def)
  have 2: "out (userdata f2)
           = out (userdata f1) @ central_directory_bytes localtime (ledger f)
             @ central_record localtime ?e
             @ eocd (length xs + 1) (length (central_directory_bytes localtime (ledger f1)))
                 (offset f1) (buf_len c2)
             @ buf_bytes c2"
    using assms(4) by (rule t(6))
  have c: "crc32 ?e = 0xFFFFFFFF" "comp_size ?e = 0" "uncomp_size ?e = 0"
    by (simp_all add: final_entry_def header_entry_def mem_entry_fields picozip__crc32_Nil)
  have 3: "READ_LE32 (local_record localtime ?e) 14 = 0xFFFFFFFF"
    "READ_LE32 (local_record localtime ?e) 18 = 0" "READ_LE32 (local_record localtime ?e) 22 = 0"
    "READ_LE32 (central_record localtime ?e) 16 = 0xFFFFFFFF"
    "READ_LE32 (central_record localtime ?e) 20 = 0"
    "READ_LE32 (central_record localtime ?e) 24 = 0"
    by (simp_all add: local_record_fields central_record_fields c)
  have 4: "\<forall>r. picozip_new_entry_mem localtime now (Some g) (Some q) (NULL 0)
               \<noteq> Inr (PICOZIP_EINVAL, r)"
  proof (intro allI notI)
    fix r
    assume a: "picozip_new_entry_mem localtime now (Some g) (Some q) (NULL 0)
               = Inr (PICOZIP_EINVAL, r)"
    let ?m = "length q + buf_len (NULL 0) + PICOZIP__ATTR_SIZE + PICOZIP__LOCAL_TIMESTAMP_SIZE"
    show False
    proof (cases "picozip__alloc_entry g ?m")
      case (Inl x)
      with a show False
        by (simp add: picozip_new_entry_mem_def picozip_new_entry_mem_ex_def)
    next
      case (Inr y)
      obtain i ga where y: "y = (i, ga)" by (cases y)
      show False
      proof (cases i)
        case None
        with a Inr y show False
          by (simp add: picozip_new_entry_mem_def picozip_new_entry_mem_ex_def)
      next
        case (Some k)
        let ?en = "mem_entry ?m (offset ga) q (NULL 0) now (NULL 0)"
        obtain err gb where w: "picozip__write_local_entry localtime (store_entry ga k ?en) ?en
                                = (err, gb)"
          by (cases "picozip__write_local_entry localtime (store_entry ga k ?en) ?en")
        from write_local_entry_frame(6) [OF w] have e: "err = PICOZIP_OK \<or> err = PICOZIP_EIO" .
        from a Inr y Some w e show False
          by (auto simp add: picozip_new_entry_mem_def picozip_new_entry_mem_ex_def Let_def
              rollback_def split: if_splits sum.splits prod.splits)
      qed
    qed
  qed
  have 5: "picozip_new True (Some wr) (Some al) (Some fr) u0 = (PICOZIP_OK, Some g, u1)
             \<and> (\<forall>u n. fst (al u n)) \<and> (\<forall>u bs. fst (wr u bs) = length bs)
           \<longrightarrow> (\<exists>g1. picozip_new_entry_mem localtime now (Some g) (Some q) (NULL 0)
                       = Inr (PICOZIP_OK, Some g1))"
  proof (intro impI, elim conjE)
    assume new: "picozip_new True (Some wr) (Some al) (Some fr) u0 = (PICOZIP_OK, Some g, u1)"
      and al: "\<forall>u n. fst (al u n)" and w: "\<forall>u bs. fst (wr u bs) = length bs"
    from picozip_new_OK [OF new] have cb: "alloc_cb g = al" "write_cb g = wr" by auto
    have "\<exists>g1. picozip_new_entry_mem_ex localtime (Some g) (Some q) (NULL 0) now (NULL 0)
                = Inr (PICOZIP_OK, Some g1)"
      using new by (rule mem_ex_first_accepted) (simp_all add: cb al w)
    then show "\<exists>g1. picozip_new_entry_mem localtime now (Some g) (Some q) (NULL 0)
                    = Inr (PICOZIP_OK, Some g1)"
      by (simp add: picozip_new_entry_mem_def)
  qed
  show ?thesis
    unfolding Let_def d
    by (intro conjI) (fact 1 2 3 picozip__crc32_Nil 4 5)+
qed

text \<open>
  The amended statement at the marker \<^verbatim>\<open>d/\<close> added to a new session over the callbacks of
  the tests and finalized, and, for the success of the add, at the new session over
  callbacks that never fail.
\<close>

theorem directory_marker_fields_witness:
  "num_entries (new_session 9 9) = 0
   \<and> add_entries localtime_utc (new_session 9 9) [] = Inr (PICOZIP_OK, Some (new_session 9 9))
   \<and> picozip_new_entry_mem_ex localtime_utc (Some (new_session 9 9)) (Some [0x64, 0x2F])
       (NULL 0) 0 (NULL 0)
     = Inr (PICOZIP_OK, Some (session_of [0x64, 0x2F] src_d 6))
   \<and> picozip_end_ex localtime_utc (Some (session_of [0x64, 0x2F] src_d 6)) (NULL 0)
     = Inr (PICOZIP_OK, Some (finalized (session_of [0x64, 0x2F] src_d 6)))
   \<and> observes (new_session 9 9) mem
   \<and> length (scratch (new_session 9 9)) = 64
   \<and> mem (userdata (session_of [0x64, 0x2F] src_d 6))
     = local_record localtime_utc (deref (session_of [0x64, 0x2F] src_d 6) 0)
   \<and> READ_LE32 (local_record localtime_utc (deref (session_of [0x64, 0x2F] src_d 6) 0)) 14
     = 0xFFFFFFFF
   \<and> READ_LE32 (local_record localtime_utc (deref (session_of [0x64, 0x2F] src_d 6) 0)) 18 = 0
   \<and> READ_LE32 (local_record localtime_utc (deref (session_of [0x64, 0x2F] src_d 6) 0)) 22 = 0
   \<and> READ_LE32 (central_record localtime_utc (deref (session_of [0x64, 0x2F] src_d 6) 0)) 16
     = 0xFFFFFFFF
   \<and> READ_LE32 (central_record localtime_utc (deref (session_of [0x64, 0x2F] src_d 6) 0)) 20 = 0
   \<and> READ_LE32 (central_record localtime_utc (deref (session_of [0x64, 0x2F] src_d 6) 0)) 24 = 0
   \<and> picozip_new True (Some sure_write) (Some sure_alloc) (Some sure_free) []
     = (PICOZIP_OK, Some sure_session, [])
   \<and> (\<forall>u n. fst (sure_alloc u n))
   \<and> (\<forall>u bs. fst (sure_write u bs) = length bs)
   \<and> (\<exists>g1. picozip_new_entry_mem localtime_utc 0 (Some sure_session) (Some [0x64, 0x2F]) (NULL 0)
           = Inr (PICOZIP_OK, Some g1))"
proof -
  have ok: "picozip_new_entry_mem_ex localtime_utc (Some (new_session 9 9)) (Some [0x64, 0x2F])
              (NULL 0) 0 (NULL 0)
            = Inr (PICOZIP_OK, Some (session_of [0x64, 0x2F] src_d 6))"
    using add_src_d by (simp add: add_entry_def src_d_def)
  note t = directory_marker_fields [OF new_session_fields(2) add_empty_run ok end_src_d
      observes_new_session scratch_new_session,
      where wr = sure_write and al = sure_alloc and fr = sure_free and ?u0.0 = "[]"
        and g = sure_session and ?u1.0 = "[]" and now = 0 and q = "[0x64, 0x2F]",
      unfolded Let_def list.size(3) new_session_fields append_Nil]
  from t have 1: "mem (userdata (session_of [0x64, 0x2F] src_d 6))
     = local_record localtime_utc (deref (session_of [0x64, 0x2F] src_d 6) 0)"
    by (elim conjE)
  from t have r1:
    "READ_LE32 (local_record localtime_utc (deref (session_of [0x64, 0x2F] src_d 6) 0)) 14
     = 0xFFFFFFFF"
    by (elim conjE)
  from t have r2:
    "READ_LE32 (local_record localtime_utc (deref (session_of [0x64, 0x2F] src_d 6) 0)) 18
     = 0"
    by (elim conjE)
  from t have r3:
    "READ_LE32 (local_record localtime_utc (deref (session_of [0x64, 0x2F] src_d 6) 0)) 22
     = 0"
    by (elim conjE)
  from t have r4:
    "READ_LE32 (central_record localtime_utc (deref (session_of [0x64, 0x2F] src_d 6) 0)) 16
     = 0xFFFFFFFF"
    by (elim conjE)
  from t have r5:
    "READ_LE32 (central_record localtime_utc (deref (session_of [0x64, 0x2F] src_d 6) 0)) 20
     = 0"
    by (elim conjE)
  from t have r6:
    "READ_LE32 (central_record localtime_utc (deref (session_of [0x64, 0x2F] src_d 6) 0)) 24
     = 0"
    by (elim conjE)
  from t have "picozip_new True (Some sure_write) (Some sure_alloc) (Some sure_free) []
                 = (PICOZIP_OK, Some sure_session, [])
               \<and> (\<forall>u n. fst (sure_alloc u n)) \<and> (\<forall>u bs. fst (sure_write u bs) = length bs)
               \<longrightarrow> (\<exists>g1. picozip_new_entry_mem localtime_utc 0 (Some sure_session)
                           (Some [0x64, 0x2F]) (NULL 0)
                         = Inr (PICOZIP_OK, Some g1))"
    by (elim conjE)
  with picozip_new_sure sure_callbacks
  have 3: "\<exists>g1. picozip_new_entry_mem localtime_utc 0 (Some sure_session) (Some [0x64, 0x2F])
                  (NULL 0)
                = Inr (PICOZIP_OK, Some g1)"
    by blast
  show ?thesis
    by (intro conjI)
       (fact new_session_fields(2) add_empty_run ok end_src_d observes_new_session
          scratch_new_session 1 r1 r2 r3 r4 r5 r6 picozip_new_sure sure_callbacks 3)+
qed

section \<open>Rolling back a failed add\<close>

text \<open>
  C8. The claim is that an add whose write fails discards the entry it appended, returns
  the I/O error and leaves the session usable, and that an add whose allocation fails
  returns the out-of-memory error with nothing sent and the ledger as it was. The second
  half holds. For the first, \<^verbatim>\<open>picozip__free_last_entry\<close> frees
  \<^verbatim>\<open>entries[file->num_entries--]\<close>: the index is the count before the decrement, one
  past the entry just appended. In a new session whose first write fails, the first add
  appends its entry at index 0 of a one-slot array and then reads the pointer to free at
  index 1, outside the array; the entry at index 0 is never freed. With no allocation
  left, the same add returns \<^verbatim>\<open>PICOZIP_ENOMEM\<close> and the session is unchanged.
\<close>

theorem rollback_frees_outside_pointer_array:
  "picozip_new_entry_mem localtime_utc 0 (Some (new_session 9 0)) (Some [0x61]) (Ptr [1])
   = Inl Out_of_bounds
   \<and> picozip__write_local_entry localtime_utc
       ((new_session 7 0)
          \<lparr>num_entries := 1,
           entries := \<lparr>data = [Entry (header_entry 0 [0x61] src_a (NULL 0))],
                       cap = 8, size_v = 0\<rparr>\<rparr>)
       (header_entry 0 [0x61] src_a (NULL 0))
     = (PICOZIP_EIO,
        (new_session 7 0)
          \<lparr>num_entries := 1,
           entries := \<lparr>data = [Entry (header_entry 0 [0x61] src_a (NULL 0))],
                       cap = 8, size_v = 0\<rparr>,
           scratch := local_header_scratch localtime_utc
                        (header_entry 0 [0x61] src_a (NULL 0)) (replicate 64 0)\<rparr>)
   \<and> picozip__free_last_entry
       ((new_session 7 0)
          \<lparr>num_entries := 1,
           entries := \<lparr>data = [Entry (header_entry 0 [0x61] src_a (NULL 0))],
                       cap = 8, size_v = 0\<rparr>,
           scratch := local_header_scratch localtime_utc
                        (header_entry 0 [0x61] src_a (NULL 0)) (replicate 64 0)\<rparr>)
     = Inl Out_of_bounds
   \<and> picozip_new_entry_mem localtime_utc 0 (Some (new_session 0 9)) (Some [0x61]) (Ptr [1])
     = Inr (PICOZIP_ENOMEM, Some (new_session 0 9))"
  by (simp add: model_defs)

section \<open>Length fields\<close>

text \<open>
  C9, as the claim has it: the length fields equal the true lengths for every path, also
  one longer than 65535 bytes. The three fields are 16 bits wide. Add, to a new session
  over callbacks that never fail, a one-byte file whose path is 65536 bytes long and whose
  comment is 65536 bytes long, and finalize: every call returns \<^verbatim>\<open>PICOZIP_OK\<close>, the
  filename length at offset 26 of the local header reads 0, and so do the filename length
  and the comment length at offsets 28 and 32 of the central record, which starts at
  offset 40 of the output.
\<close>

theorem length_fields_wrap_at_65536:
  "status_of (finalize_after localtime_utc sure_session
                [(replicate 65536 0x61, Known (Ptr [1]) 0, Ptr (replicate 65536 0x63))] (NULL 0))
   = Some PICOZIP_OK
   \<and> length (replicate 65536 (0x61 :: u8)) = 65536
   \<and> buf_len (Ptr (replicate 65536 0x63)) = 65536
   \<and> READ_LE16 (userdata_of [] (finalize_after localtime_utc sure_session
                [(replicate 65536 0x61, Known (Ptr [1]) 0, Ptr (replicate 65536 0x63))] (NULL 0)))
       26 = 0
   \<and> READ_LE16 (userdata_of [] (finalize_after localtime_utc sure_session
                [(replicate 65536 0x61, Known (Ptr [1]) 0, Ptr (replicate 65536 0x63))] (NULL 0)))
       (40 + 28) = 0
   \<and> READ_LE16 (userdata_of [] (finalize_after localtime_utc sure_session
                [(replicate 65536 0x61, Known (Ptr [1]) 0, Ptr (replicate 65536 0x63))] (NULL 0)))
       (40 + 32) = 0"
proof -
  define p :: "u8 list" where "p = replicate 65536 0x61"
  define c where "c = Ptr (replicate 65536 (0x63 :: u8))"
  define R where "R = finalize_after localtime_utc sure_session [(p, Known (Ptr [1]) 0, c)]
                        (NULL 0)"
  define h where "h = header_entry 0 p (Known (Ptr [1]) 0) c"
  let ?L = "local_record localtime_utc h"
  let ?C = "central_record localtime_utc h"
  have lp: "length p = 65536" unfolding p_def by (simp only: length_replicate)
  have lc: "buf_len c = 65536" unfolding c_def by (simp only: buf_len.simps length_replicate)
  have vc: "length (buf_bytes c) = buf_len c" by (simp add: c_def)
  have vd: "length (buf_bytes (Ptr [1 :: u8])) = buf_len (Ptr [1])" by simp
  note t = sure_first_run [OF vd vc, of p 0, folded R_def h_def]
  have 1: "status_of R = Some PICOZIP_OK" using t(1) .
  from t(2) obtain E where U: "userdata_of [] R = (?L @ [1]) @ ?C @ E" by auto
  have z: "(of_nat 65536 :: u16) = 0" by simp
  have fl: "filename_len h = 0" "comment_len h = 0"
    by (simp_all add: h_def header_entry_fields lp lc z)
  have lL: "length ?L = 39" using t(3) by (simp add: lp)
  then have lL1: "length (?L @ [1]) = 40" by simp
  have lC: "46 \<le> length ?C" by (simp add: central_record_def)
  have 2: "READ_LE16 (userdata_of [] R) 26 = 0"
    unfolding U using lL by (simp add: READ_LE16_append local_record_fields fl)
  have "READ_LE16 ((?L @ [1]) @ ?C @ E) (length (?L @ [1]) + 28) = READ_LE16 ?C 28"
    using lC by (simp only: READ_LE16_skip) (simp add: READ_LE16_append)
  then have 3: "READ_LE16 (userdata_of [] R) (40 + 28) = 0"
    unfolding U lL1 by (simp add: central_record_fields fl)
  have "READ_LE16 ((?L @ [1]) @ ?C @ E) (length (?L @ [1]) + 32) = READ_LE16 ?C 32"
    using lC by (simp only: READ_LE16_skip) (simp add: READ_LE16_append)
  then have 4: "READ_LE16 (userdata_of [] R) (40 + 32) = 0"
    unfolding U lL1 by (simp add: central_record_fields fl)
  show ?thesis
    using 1 2 3 4 lp lc unfolding R_def p_def c_def
    by (intro conjI)
qed

text \<open>
  C9, amended. Take an add, from memory or from a stream, that succeeds after any run of
  adds, with a path and a comment of at most 65535 bytes each, and a finalize that
  follows. In the local record the add sends, the filename length field holds the length
  of the path and the filename bytes are the path; the extra field length is 9 and the
  extra field is the nine bytes of the extended timestamp. The central record finalize
  sends for the entry says the same, and its comment length field holds the length of
  the comment, whose bytes follow the extra field. Both records are exactly as long as
  their fields say.
\<close>

theorem length_fields_are_true_lengths:
  assumes "num_entries f0 = 0"
    and "add_entries localtime f0 xs = Inr (PICOZIP_OK, Some f)"
    and "add_entry localtime (Some f) (Some p) src c = Inr (PICOZIP_OK, Some f1)"
    and "picozip_end_ex localtime (Some f1) c2 = Inr (PICOZIP_OK, Some f2)"
    and "observes f0 out" and "length (scratch f0) = 64"
    and "length p < 65536" and "buf_len c < 65536"
  shows "(let L = local_record localtime (header_entry (offset f) p src c);
              C = central_record localtime (deref f1 (length xs))
          in out (userdata f1) = out (userdata f) @ L @ content src @ trailer (offset f) p src c
             \<and> out (userdata f2)
               = out (userdata f1) @ central_directory_bytes localtime (ledger f) @ C
                 @ eocd (length xs + 1) (length (central_directory_bytes localtime (ledger f1)))
                     (offset f1) (buf_len c2)
                 @ buf_bytes c2
             \<and> unat (READ_LE16 L 26) = length p
             \<and> bytes_at L 30 (length p) = p
             \<and> unat (READ_LE16 L 28) = 9
             \<and> bytes_at L (30 + length p) 9 = timestamp_field (src_mtime src)
             \<and> length L = 30 + length p + 9
             \<and> unat (READ_LE16 C 28) = length p
             \<and> bytes_at C 46 (length p) = p
             \<and> unat (READ_LE16 C 30) = 9
             \<and> bytes_at C (46 + length p) 9 = timestamp_field (src_mtime src)
             \<and> unat (READ_LE16 C 32) = buf_len c
             \<and> bytes_at C (46 + length p + 9) (buf_len c) = buf_bytes c
             \<and> length C = 46 + length p + 9 + buf_len c)"
proof -
  define h where "h = header_entry (offset f) p src c"
  define e where "e = final_entry (offset f) p src c"
  note t = add_then_end [OF assms(1,2,3,5,6)]
  have d: "deref f1 (length xs) = e" using t(1,2) by (simp add: e_def)
  have vc: "length (buf_bytes c) = buf_len c" using t(5) .
  have md: "metadata h = p @ timestamp_field (src_mtime src) @ buf_bytes c"
    "metadata e = p @ timestamp_field (src_mtime src) @ buf_bytes c"
    by (simp_all add: h_def e_def final_entry_fields header_entry_metadata [OF vc])
  have fl: "unat (filename_len h) = length p" "unat (extra_field_len h) = 9"
    "unat (filename_len e) = length p" "unat (extra_field_len e) = 9"
    "unat (comment_len e) = buf_len c"
    using assms(7,8)
    by (simp_all add: h_def e_def final_entry_fields header_entry_fields unat_of_nat_u16)
  let ?L = "local_record localtime h"
  let ?C = "central_record localtime e"
  have 1: "out (userdata f1) = out (userdata f) @ ?L @ content src @ trailer (offset f) p src c"
    using t(4) by (simp add: h_def)
  have 2: "out (userdata f2)
           = out (userdata f1) @ central_directory_bytes localtime (ledger f) @ ?C
             @ eocd (length xs + 1) (length (central_directory_bytes localtime (ledger f1)))
                 (offset f1) (buf_len c2)
             @ buf_bytes c2"
    using t(6) [OF assms(4)] by (simp add: e_def)
  have 3: "unat (READ_LE16 ?L 26) = length p" "unat (READ_LE16 ?L 28) = 9"
    by (simp_all add: local_record_fields fl)
  have 4: "unat (READ_LE16 ?C 28) = length p" "unat (READ_LE16 ?C 30) = 9"
    "unat (READ_LE16 ?C 32) = buf_len c"
    by (simp_all add: central_record_fields fl)
  have 5: "bytes_at ?L 30 (length p) = p"
    using local_record_bytes [of 0 "length p" h localtime] by (simp add: fl md)
  have 6: "bytes_at ?L (30 + length p) 9 = timestamp_field (src_mtime src)"
    using local_record_bytes [of "length p" 9 h localtime] by (simp add: fl md)
  have 7: "length ?L = 30 + length p + 9"
    using length_local_record [of h localtime] by (simp add: fl md)
  have 8: "bytes_at ?C 46 (length p) = p"
    using central_record_bytes [of 0 "length p" e localtime] by (simp add: fl md)
  have 9: "bytes_at ?C (46 + length p) 9 = timestamp_field (src_mtime src)"
    using central_record_bytes [of "length p" 9 e localtime] by (simp add: fl md)
  have 10: "bytes_at ?C (46 + length p + 9) (buf_len c) = buf_bytes c"
    using central_record_bytes [of "length p + 9" "buf_len c" e localtime] vc
    by (simp add: fl md)
  have 11: "length ?C = 46 + length p + 9 + buf_len c"
    using vc by (simp add: central_record_def fl md)
  show ?thesis
    unfolding Let_def d h_def [symmetric]
    by (intro conjI) (fact 1 2 3 4 5 6 7 8 9 10 11)+
qed

text \<open>
  The amended statement at the one-byte file \<^verbatim>\<open>a\<close> streamed into a new session over the
  callbacks of the tests, which is then finalized.
\<close>

theorem length_fields_are_true_lengths_witness:
  "num_entries (new_session 9 9) = 0
   \<and> add_entries localtime_utc (new_session 9 9) [] = Inr (PICOZIP_OK, Some (new_session 9 9))
   \<and> add_entry localtime_utc (Some (new_session 9 9)) (Some [0x61]) src_s (NULL 0)
     = Inr (PICOZIP_OK, Some (session_of [0x61] src_s 5))
   \<and> picozip_end_ex localtime_utc (Some (session_of [0x61] src_s 5)) (NULL 0)
     = Inr (PICOZIP_OK, Some (finalized (session_of [0x61] src_s 5)))
   \<and> observes (new_session 9 9) mem
   \<and> length (scratch (new_session 9 9)) = 64
   \<and> length [0x61 :: u8] < 65536
   \<and> buf_len (NULL 0) < 65536
   \<and> unat (READ_LE16 (local_record localtime_utc (header_entry 0 [0x61] src_s (NULL 0))) 26) = 1
   \<and> bytes_at (local_record localtime_utc (header_entry 0 [0x61] src_s (NULL 0))) 30 1 = [0x61]
   \<and> unat (READ_LE16 (local_record localtime_utc (header_entry 0 [0x61] src_s (NULL 0))) 28) = 9
   \<and> length (local_record localtime_utc (header_entry 0 [0x61] src_s (NULL 0))) = 40
   \<and> unat (READ_LE16 (central_record localtime_utc (deref (session_of [0x61] src_s 5) 0)) 28) = 1
   \<and> bytes_at (central_record localtime_utc (deref (session_of [0x61] src_s 5) 0)) 46 1 = [0x61]
   \<and> unat (READ_LE16 (central_record localtime_utc (deref (session_of [0x61] src_s 5) 0)) 30) = 9
   \<and> unat (READ_LE16 (central_record localtime_utc (deref (session_of [0x61] src_s 5) 0)) 32) = 0
   \<and> length (central_record localtime_utc (deref (session_of [0x61] src_s 5) 0)) = 56"
proof -
  have lp: "length [0x61 :: u8] < 65536" by simp
  have lc: "buf_len (NULL 0) < 65536" by simp
  note t = length_fields_are_true_lengths [OF new_session_fields(2) add_empty_run add_src_s
      end_src_s observes_new_session scratch_new_session lp lc,
      unfolded Let_def list.size(3) new_session_fields append_Nil]
  from t have r1:
    "unat (READ_LE16 (local_record localtime_utc (header_entry 0 [0x61] src_s (NULL 0))) 26)
     = length [0x61 :: u8]"
    by (elim conjE)
  from t have r2:
    "bytes_at (local_record localtime_utc (header_entry 0 [0x61] src_s (NULL 0))) 30
       (length [0x61 :: u8]) = [0x61]"
    by (elim conjE)
  from t have r3:
    "unat (READ_LE16 (local_record localtime_utc (header_entry 0 [0x61] src_s (NULL 0))) 28) = 9"
    by (elim conjE)
  from t have r4:
    "length (local_record localtime_utc (header_entry 0 [0x61] src_s (NULL 0)))
     = 30 + length [0x61 :: u8] + 9"
    by (elim conjE)
  from t have r5:
    "unat (READ_LE16 (central_record localtime_utc (deref (session_of [0x61] src_s 5) 0)) 28)
     = length [0x61 :: u8]"
    by (elim conjE)
  from t have r6:
    "bytes_at (central_record localtime_utc (deref (session_of [0x61] src_s 5) 0)) 46
       (length [0x61 :: u8]) = [0x61]"
    by (elim conjE)
  from t have r7:
    "unat (READ_LE16 (central_record localtime_utc (deref (session_of [0x61] src_s 5) 0)) 30) = 9"
    by (elim conjE)
  from t have r8:
    "unat (READ_LE16 (central_record localtime_utc (deref (session_of [0x61] src_s 5) 0)) 32)
     = buf_len (NULL 0)"
    by (elim conjE)
  from t have r9:
    "length (central_record localtime_utc (deref (session_of [0x61] src_s 5) 0))
     = 46 + length [0x61 :: u8] + 9 + buf_len (NULL 0)"
    by (elim conjE)
  from r1 have s1:
    "unat (READ_LE16 (local_record localtime_utc (header_entry 0 [0x61] src_s (NULL 0))) 26) = 1"
    by simp
  from r2 have s2:
    "bytes_at (local_record localtime_utc (header_entry 0 [0x61] src_s (NULL 0))) 30 1 = [0x61]"
    by simp
  from r4 have s4:
    "length (local_record localtime_utc (header_entry 0 [0x61] src_s (NULL 0))) = 40"
    by simp
  from r5 have s5:
    "unat (READ_LE16 (central_record localtime_utc (deref (session_of [0x61] src_s 5) 0)) 28) = 1"
    by simp
  from r6 have s6:
    "bytes_at (central_record localtime_utc (deref (session_of [0x61] src_s 5) 0)) 46 1 = [0x61]"
    by simp
  from r8 have s8:
    "unat (READ_LE16 (central_record localtime_utc (deref (session_of [0x61] src_s 5) 0)) 32) = 0"
    by simp
  from r9 have s9:
    "length (central_record localtime_utc (deref (session_of [0x61] src_s 5) 0)) = 56"
    by simp
  show ?thesis
    by (intro conjI)
       (fact new_session_fields(2) add_empty_run add_src_s end_src_s observes_new_session
          scratch_new_session lp lc s1 s2 r3 s4 s5 s6 r7 s8 s9)+
qed

section \<open>The two protocols agree on the CRC and the sizes\<close>

text \<open>
  C10. Take two histories. In the first a run of adds from a session without entries is
  followed by an add from memory (\<^verbatim>\<open>picozip_new_entry_mem_ex\<close>) that succeeds, in the
  second a run of adds is followed by a streamed add (\<^verbatim>\<open>picozip_new_entry_file\<close>) that
  succeeds; both sessions are then finalized. Let the buffer of the first add hold the
  bytes the stream of the second delivers; paths, comments, times and what was added
  before may differ. Each add appends one entry to the ledger of its session, and the two
  entries have the same \<^verbatim>\<open>crc32\<close>, \<^verbatim>\<open>comp_size\<close> and \<^verbatim>\<open>uncomp_size\<close>: the CRC is the
  complement of the CRC-32 of the content in both, and both sizes are the content length,
  as a 32-bit field holds it (the length itself when it fits the field). Finalize sends
  for each of the two entries a central record, and the CRC and size fields of the two
  records are equal.
\<close>

theorem protocols_record_same_crc_and_sizes:
  assumes "num_entries fa0 = 0"
    and "add_entries localtime fa0 xa = Inr (PICOZIP_OK, Some fa)"
    and "picozip_new_entry_mem_ex localtime (Some fa) (Some pa) dat mtime ca
         = Inr (PICOZIP_OK, Some fa1)"
    and "picozip_end_ex localtime (Some fa1) ea = Inr (PICOZIP_OK, Some fa2)"
    and "observes fa0 outa" and "length (scratch fa0) = 64"
    and "num_entries fb0 = 0"
    and "add_entries localtime fb0 xb = Inr (PICOZIP_OK, Some fb)"
    and "picozip_new_entry_file localtime (Some fb) (Some pb) (Some fp) cb
         = Inr (PICOZIP_OK, Some fb1)"
    and "picozip_end_ex localtime (Some fb1) eb = Inr (PICOZIP_OK, Some fb2)"
    and "observes fb0 outb" and "length (scratch fb0) = 64"
    and "buf_bytes dat = contents fp"
  shows "(let ka = deref fa1 (length xa); kb = deref fb1 (length xb);
              Ca = central_record localtime ka; Cb = central_record localtime kb
          in ledger fa1 = ledger fa @ [ka]
             \<and> ledger fb1 = ledger fb @ [kb]
             \<and> crc32 ka = crc32 kb
             \<and> comp_size ka = comp_size kb
             \<and> uncomp_size ka = uncomp_size kb
             \<and> crc32 ka = NOT (reference_crc32 (contents fp))
             \<and> crc32 kb = NOT (reference_crc32 (contents fp))
             \<and> unat (comp_size ka) = length (contents fp) mod 4294967296
             \<and> unat (uncomp_size ka) = length (contents fp) mod 4294967296
             \<and> unat (comp_size kb) = length (contents fp) mod 4294967296
             \<and> unat (uncomp_size kb) = length (contents fp) mod 4294967296
             \<and> (length (contents fp) < 4294967296 \<longrightarrow>
                  unat (comp_size ka) = length (contents fp)
                  \<and> unat (uncomp_size ka) = length (contents fp)
                  \<and> unat (comp_size kb) = length (contents fp)
                  \<and> unat (uncomp_size kb) = length (contents fp))
             \<and> outa (userdata fa2)
               = outa (userdata fa1) @ central_directory_bytes localtime (ledger fa) @ Ca
                 @ eocd (length xa + 1) (length (central_directory_bytes localtime (ledger fa1)))
                     (offset fa1) (buf_len ea)
                 @ buf_bytes ea
             \<and> outb (userdata fb2)
               = outb (userdata fb1) @ central_directory_bytes localtime (ledger fb) @ Cb
                 @ eocd (length xb + 1) (length (central_directory_bytes localtime (ledger fb1)))
                     (offset fb1) (buf_len eb)
                 @ buf_bytes eb
             \<and> READ_LE32 Ca 16 = READ_LE32 Cb 16
             \<and> READ_LE32 Ca 20 = READ_LE32 Cb 20
             \<and> READ_LE32 Ca 24 = READ_LE32 Cb 24
             \<and> READ_LE32 Ca 16 = NOT (reference_crc32 (contents fp))
             \<and> READ_LE32 Ca 20 = of_nat (length (contents fp))
             \<and> READ_LE32 Ca 24 = of_nat (length (contents fp)))"
proof -
  define ka where "ka = final_entry (offset fa) pa (Known dat mtime) ca"
  define kb where "kb = final_entry (offset fb) pb (Streamed fp) cb"
  from assms(3) have adda: "add_entry localtime (Some fa) (Some pa) (Known dat mtime) ca
                            = Inr (PICOZIP_OK, Some fa1)"
    by (simp add: add_entry_def)
  from assms(9) have addb: "add_entry localtime (Some fb) (Some pb) (Streamed fp) cb
                            = Inr (PICOZIP_OK, Some fb1)"
    by (simp add: add_entry_def)
  note ta = add_then_end [OF assms(1,2) adda assms(5,6)]
  note tb = add_then_end [OF assms(7,8) addb assms(11,12)]
  have da: "deref fa1 (length xa) = ka" using ta(1,2) by (simp add: ka_def)
  have db: "deref fb1 (length xb) = kb" using tb(1,2) by (simp add: kb_def)
  have vd: "length (buf_bytes dat) = buf_len dat" using assms(3) by (rule mem_ex_OK(2))
  have fa: "crc32 ka = NOT (reference_crc32 (contents fp))"
    "comp_size ka = of_nat (length (contents fp))"
    "uncomp_size ka = of_nat (length (contents fp))"
    unfolding ka_def using vd
    by (simp_all add: final_entry_def header_entry_def mem_entry_fields NOT_u32
        picozip__crc32_reference assms(13))
  have fb: "crc32 kb = NOT (reference_crc32 (contents fp))"
    "comp_size kb = of_nat (length (contents fp))"
    "uncomp_size kb = of_nat (length (contents fp))"
    unfolding kb_def
    by (simp_all add: final_entry_def NOT_u32 picozip__crc32_reference)
  let ?Ca = "central_record localtime ka"
  let ?Cb = "central_record localtime kb"
  have 1: "ledger fa1 = ledger fa @ [ka]" "ledger fb1 = ledger fb @ [kb]"
    using ta(3) tb(3) by (simp_all add: ka_def kb_def)
  have 2: "crc32 ka = crc32 kb" "comp_size ka = comp_size kb" "uncomp_size ka = uncomp_size kb"
    by (simp_all add: fa fb)
  have 3: "unat (comp_size ka) = length (contents fp) mod 4294967296"
    "unat (uncomp_size ka) = length (contents fp) mod 4294967296"
    "unat (comp_size kb) = length (contents fp) mod 4294967296"
    "unat (uncomp_size kb) = length (contents fp) mod 4294967296"
    by (simp_all add: fa fb unat_of_nat_u32_mod)
  have 4: "length (contents fp) < 4294967296 \<longrightarrow>
             unat (comp_size ka) = length (contents fp)
             \<and> unat (uncomp_size ka) = length (contents fp)
             \<and> unat (comp_size kb) = length (contents fp)
             \<and> unat (uncomp_size kb) = length (contents fp)"
    by (simp add: 3)
  have 5: "outa (userdata fa2)
           = outa (userdata fa1) @ central_directory_bytes localtime (ledger fa) @ ?Ca
             @ eocd (length xa + 1) (length (central_directory_bytes localtime (ledger fa1)))
                 (offset fa1) (buf_len ea)
             @ buf_bytes ea"
    using ta(6) [OF assms(4)] by (simp add: ka_def)
  have 6: "outb (userdata fb2)
           = outb (userdata fb1) @ central_directory_bytes localtime (ledger fb) @ ?Cb
             @ eocd (length xb + 1) (length (central_directory_bytes localtime (ledger fb1)))
                 (offset fb1) (buf_len eb)
             @ buf_bytes eb"
    using tb(6) [OF assms(10)] by (simp add: kb_def)
  have 7: "READ_LE32 ?Ca 16 = READ_LE32 ?Cb 16" "READ_LE32 ?Ca 20 = READ_LE32 ?Cb 20"
    "READ_LE32 ?Ca 24 = READ_LE32 ?Cb 24"
    "READ_LE32 ?Ca 16 = NOT (reference_crc32 (contents fp))"
    "READ_LE32 ?Ca 20 = of_nat (length (contents fp))"
    "READ_LE32 ?Ca 24 = of_nat (length (contents fp))"
    by (simp_all add: central_record_fields fa fb)
  show ?thesis
    unfolding Let_def da db
    by (intro conjI) (fact 1 2 3 4 5 6 7 fa(1) fb(1))+
qed

text \<open>
  The statement at the one-byte file \<^verbatim>\<open>a\<close> with content 1, added from memory to a new
  session over the callbacks of the tests and streamed into another, both finalized: the
  two ledger entries hold the CRC \<^verbatim>\<open>0x5AFA20E4\<close>, the complement of \<^verbatim>\<open>0xA505DF1B\<close>, and
  the sizes 1, and so do the two central records.
\<close>

theorem protocols_record_same_crc_and_sizes_witness:
  "num_entries (new_session 9 9) = 0
   \<and> add_entries localtime_utc (new_session 9 9) [] = Inr (PICOZIP_OK, Some (new_session 9 9))
   \<and> picozip_new_entry_mem_ex localtime_utc (Some (new_session 9 9)) (Some [0x61])
       (Ptr [1]) 0 (NULL 0)
     = Inr (PICOZIP_OK, Some (session_of [0x61] src_a 6))
   \<and> picozip_end_ex localtime_utc (Some (session_of [0x61] src_a 6)) (NULL 0)
     = Inr (PICOZIP_OK, Some (finalized (session_of [0x61] src_a 6)))
   \<and> observes (new_session 9 9) mem
   \<and> length (scratch (new_session 9 9)) = 64
   \<and> picozip_new_entry_file localtime_utc (Some (new_session 9 9)) (Some [0x61])
       (Some \<lparr>st_mtime = Some 0, contents = [1]\<rparr>) (NULL 0)
     = Inr (PICOZIP_OK, Some (session_of [0x61] src_s 5))
   \<and> picozip_end_ex localtime_utc (Some (session_of [0x61] src_s 5)) (NULL 0)
     = Inr (PICOZIP_OK, Some (finalized (session_of [0x61] src_s 5)))
   \<and> buf_bytes (Ptr [1]) = contents \<lparr>st_mtime = Some 0, contents = [1]\<rparr>
   \<and> crc32 (deref (session_of [0x61] src_a 6) 0) = 0x5AFA20E4
   \<and> crc32 (deref (session_of [0x61] src_s 5) 0) = 0x5AFA20E4
   \<and> unat (comp_size (deref (session_of [0x61] src_a 6) 0)) = 1
   \<and> unat (comp_size (deref (session_of [0x61] src_s 5) 0)) = 1
   \<and> unat (uncomp_size (deref (session_of [0x61] src_a 6) 0)) = 1
   \<and> unat (uncomp_size (deref (session_of [0x61] src_s 5) 0)) = 1
   \<and> READ_LE32 (central_record localtime_utc (deref (session_of [0x61] src_a 6) 0)) 16
     = READ_LE32 (central_record localtime_utc (deref (session_of [0x61] src_s 5) 0)) 16
   \<and> READ_LE32 (central_record localtime_utc (deref (session_of [0x61] src_a 6) 0)) 16
     = 0x5AFA20E4"
proof -
  have oka: "picozip_new_entry_mem_ex localtime_utc (Some (new_session 9 9)) (Some [0x61])
               (Ptr [1]) 0 (NULL 0)
             = Inr (PICOZIP_OK, Some (session_of [0x61] src_a 6))"
    using add_src_a by (simp add: add_entry_def src_a_def)
  have okb: "picozip_new_entry_file localtime_utc (Some (new_session 9 9)) (Some [0x61])
               (Some \<lparr>st_mtime = Some 0, contents = [1]\<rparr>) (NULL 0)
             = Inr (PICOZIP_OK, Some (session_of [0x61] src_s 5))"
    using add_src_s by (simp add: add_entry_def src_s_def)
  have same: "buf_bytes (Ptr [1]) = contents \<lparr>st_mtime = Some 0, contents = [1]\<rparr>"
    by simp
  note t = protocols_record_same_crc_and_sizes [OF new_session_fields(2) add_empty_run oka
      end_src_a observes_new_session scratch_new_session new_session_fields(2) add_empty_run
      okb end_src_s observes_new_session scratch_new_session same,
      unfolded Let_def list.size(3) FILE.simps]
  from t have "crc32 (deref (session_of [0x61] src_a 6) 0) = NOT (reference_crc32 [1])"
    by (elim conjE)
  then have r1: "crc32 (deref (session_of [0x61] src_a 6) 0) = 0x5AFA20E4"
    by (simp add: reference_crc32_one_byte)
  from t have "crc32 (deref (session_of [0x61] src_s 5) 0) = NOT (reference_crc32 [1])"
    by (elim conjE)
  then have r2: "crc32 (deref (session_of [0x61] src_s 5) 0) = 0x5AFA20E4"
    by (simp add: reference_crc32_one_byte)
  from t have "unat (comp_size (deref (session_of [0x61] src_a 6) 0))
               = length [1 :: u8] mod 4294967296"
    by (elim conjE)
  then have r3: "unat (comp_size (deref (session_of [0x61] src_a 6) 0)) = 1" by simp
  from t have "unat (comp_size (deref (session_of [0x61] src_s 5) 0))
               = length [1 :: u8] mod 4294967296"
    by (elim conjE)
  then have r4: "unat (comp_size (deref (session_of [0x61] src_s 5) 0)) = 1" by simp
  from t have "unat (uncomp_size (deref (session_of [0x61] src_a 6) 0))
               = length [1 :: u8] mod 4294967296"
    by (elim conjE)
  then have r5: "unat (uncomp_size (deref (session_of [0x61] src_a 6) 0)) = 1" by simp
  from t have "unat (uncomp_size (deref (session_of [0x61] src_s 5) 0))
               = length [1 :: u8] mod 4294967296"
    by (elim conjE)
  then have r6: "unat (uncomp_size (deref (session_of [0x61] src_s 5) 0)) = 1" by simp
  from t have r7:
    "READ_LE32 (central_record localtime_utc (deref (session_of [0x61] src_a 6) 0)) 16
     = READ_LE32 (central_record localtime_utc (deref (session_of [0x61] src_s 5) 0)) 16"
    by (elim conjE)
  from t have "READ_LE32 (central_record localtime_utc (deref (session_of [0x61] src_a 6) 0)) 16
               = NOT (reference_crc32 [1])"
    by (elim conjE)
  then have r8:
    "READ_LE32 (central_record localtime_utc (deref (session_of [0x61] src_a 6) 0)) 16
     = 0x5AFA20E4"
    by (simp add: reference_crc32_one_byte)
  show ?thesis
    by (intro conjI)
       (fact new_session_fields(2) add_empty_run oka okb end_src_a end_src_s
          observes_new_session scratch_new_session same r1 r2 r3 r4 r5 r6 r7 r8)+
qed
end
